theory Spec2Isabelle
  imports Complex_Main "HOL-Library.AList"
begin

section \<open>Values, errors and keys of \<open>weblate/utils/stats.py\<close>\<close>

text \<open>
  Python values held by a stats record: \<open>None\<close>, an integer (counts, sums, author ids),
  a float (the reading of \<open>monotonic()\<close> and percentages; exact rationals here, since the
  code only compares, stores and divides them) and a datetime (\<open>last_changed\<close>; a point
  on the time line in microseconds).
\<close>

datatype val = VNone | VInt int | VFloat rat | VDate int

datatype error =
    InvalidStats string
  | UnsupportedStats string
  | KeyError string
  | TypeError
  | NotImplementedError

text \<open>Python truthiness: \<open>None\<close>, \<open>0\<close> and \<open>0.0\<close> are false; a datetime is always true.\<close>

fun truthy :: "val \<Rightarrow> bool" where
  "truthy VNone = False"
| "truthy (VInt n) = (n \<noteq> 0)"
| "truthy (VFloat r) = (r \<noteq> 0)"
| "truthy (VDate t) = True"

definition startswith :: "string \<Rightarrow> string \<Rightarrow> bool" where
  "startswith s p = (take (length p) s = p)"

definition endswith :: "string \<Rightarrow> string \<Rightarrow> bool" where
  "endswith s p = (drop (length s - length p) s = p)"

text \<open>
  \<open>BASICS\<close>, \<open>BASIC_KEYS\<close> and \<open>SOURCE_KEYS\<close> are (frozen) sets in the source; they are
  listed here in the order the source writes them. The order in which a loop visits the
  keys does not matter: the effect of the loop over the keys is proved below for every
  list of distinct keys.
\<close>

definition BASICS :: "string list" where
  "BASICS =
    [''all'', ''fuzzy'', ''todo'', ''readonly'', ''nottranslated'', ''translated'',
     ''approved'', ''allchecks'', ''translated_checks'', ''dismissed_checks'',
     ''suggestions'', ''nosuggestions'', ''comments'', ''approved_suggestions'',
     ''unlabeled'', ''unapproved'']"

definition BASIC_KEYS :: "string list" where
  "BASIC_KEYS =
     map (\<lambda>x. x @ ''_words'') BASICS @ map (\<lambda>x. x @ ''_chars'') BASICS @ BASICS @
     [''languages'', ''last_changed'', ''last_author'', ''recent_changes'',
      ''monthly_changes'', ''total_changes'']"

definition SOURCE_KEYS :: "string list" where
  "SOURCE_KEYS = BASIC_KEYS @ [''source_strings'', ''source_words'', ''source_chars'']"

section \<open>Local dictionaries and child records\<close>

text \<open>
  The local \<open>stats\<close> dictionary of a calculator is an insertion-ordered association
  list (\<open>AList.update\<close> replaces in place or appends, as a Python dict does), because the
  calculators iterate over its items. The loaded record \<open>_data\<close> is a map.
\<close>

type_synonym stats = "(string \<times> val) list"

type_synonym record_data = "string \<rightharpoonup> val"

text \<open>
  A child stats object as the aggregation reads it: \<open>getattr(stats_obj, item)\<close> for a
  numeric key, and the attributes \<open>last_changed\<close>, \<open>last_author\<close>, \<open>stats_timestamp\<close>.
\<close>

record stats_obj =
  so_num :: "string \<Rightarrow> int"
  so_last_changed :: "int option"
  so_last_author :: "int option"
  so_stats_timestamp :: rat

definition date_val :: "int option \<Rightarrow> val" where
  "date_val t = (case t of None \<Rightarrow> VNone | Some d \<Rightarrow> VDate d)"

definition int_val :: "int option \<Rightarrow> val" where
  "int_val a = (case a of None \<Rightarrow> VNone | Some n \<Rightarrow> VInt n)"

text \<open>\<open>last < stats_obj.last_changed\<close> on the values \<open>stats["last_changed"]\<close> can hold.\<close>

fun date_less :: "val \<Rightarrow> int \<Rightarrow> bool" where
  "date_less (VDate a) b = (a < b)"
| "date_less _ b = False"

text \<open>\<open>stats[item] += n\<close>: a missing key raises KeyError, a non-number TypeError.\<close>

definition add_item :: "stats \<Rightarrow> string \<Rightarrow> int \<Rightarrow> error + stats" where
  "add_item stats item n =
     (case map_of stats item of
        None \<Rightarrow> Inl (KeyError item)
      | Some (VInt a) \<Rightarrow> Inr (AList.update item (VInt (a + n)) stats)
      | Some (VFloat r) \<Rightarrow> Inr (AList.update item (VFloat (r + of_int n)) stats)
      | Some _ \<Rightarrow> Inl TypeError)"

text \<open>\<open>max(stats[item], ts)\<close>: Python's \<open>max\<close> keeps the first argument unless the second is greater.\<close>

definition max_item :: "stats \<Rightarrow> string \<Rightarrow> rat \<Rightarrow> error + stats" where
  "max_item stats item ts =
     (case map_of stats item of
        None \<Rightarrow> Inl (KeyError item)
      | Some (VInt a) \<Rightarrow>
          Inr (if of_int a < ts then AList.update item (VFloat ts) stats else stats)
      | Some (VFloat r) \<Rightarrow>
          Inr (if r < ts then AList.update item (VFloat ts) stats else stats)
      | Some _ \<Rightarrow> Inl TypeError)"

definition aggregate :: "stats \<Rightarrow> string \<Rightarrow> stats_obj \<Rightarrow> error + stats" where
  "aggregate stats item stats_obj =
     (if item = ''stats_timestamp'' then max_item stats item (so_stats_timestamp stats_obj)
      else if item = ''last_changed'' then
        (case map_of stats ''last_changed'' of
           None \<Rightarrow> Inl (KeyError ''last_changed'')
         | Some lastv \<Rightarrow>
            (case so_last_changed stats_obj of
               None \<Rightarrow> Inr stats
             | Some t \<Rightarrow>
                 if \<not> truthy lastv \<or> date_less lastv t
                 then Inr (AList.update ''last_author'' (int_val (so_last_author stats_obj))
                            (AList.update ''last_changed'' (VDate t) stats))
                 else Inr stats))
      else if item \<noteq> ''last_author'' then add_item stats item (so_num stats_obj item)
      else Inr stats)"

definition zero_stats :: "string list \<Rightarrow> stats" where
  "zero_stats keys =
     AList.update ''stats_timestamp'' (VInt 0)
       (AList.update ''last_author'' VNone
         (AList.update ''last_changed'' VNone
           (fold (\<lambda>item stats. AList.update item (VInt 0) stats) keys [])))"

section \<open>The state of one stats object\<close>

text \<open>
  \<open>s_data\<close> is \<open>_data\<close> (\<open>None\<close> while not loaded), \<open>s_pending_save\<close> is \<open>_pending_save\<close>,
  \<open>s_cache\<close> is the cache entry under the object's own \<open>cache_key\<close>, \<open>s_sets\<close> logs the
  record handed to each \<open>cache.set\<close> (oldest first) and \<open>s_on_commit\<close> counts the
  \<open>transaction.on_commit\<close> registrations made by \<open>TranslationStats.save\<close>.
\<close>

record self_state =
  s_data :: "record_data option"
  s_pending_save :: bool
  s_cache :: "record_data option"
  s_sets :: "record_data list"
  s_on_commit :: nat

text \<open>The aggregating classes of the source.\<close>

datatype agg_kind =
    LanguageStats
  | ComponentStats
  | ProjectLanguageStats
  | CategoryLanguageStats
  | CategoryStats
  | ProjectStats
  | ComponentListStats
  | GlobalStats

text \<open>
  What an aggregating node reads from outside itself: the stats objects of \<open>object_set\<close>
  and \<open>category_set\<close>, the stats of \<open>get_source_translation()\<close> (ComponentStats) and the
  value of \<open>self._object.languages.count()\<close> / \<open>Language.objects.have_translation().count()\<close>
  (ProjectStats, GlobalStats). \<open>e_has_review\<close> is what \<open>has_review\<close> reads from the object:
  \<open>enable_review\<close> (ComponentStats, ProjectStats) or
  \<open>project.source_review or project.translation_review\<close> (the project-language and
  category-language classes).
\<close>

record agg_env =
  e_object_set :: "stats_obj list"
  e_category_set :: "stats_obj list"
  e_source_translation :: "stats_obj option"
  e_languages_count :: int
  e_has_review :: bool

text \<open>
  \<open>category_set\<close> is \<open>[]\<close> in AggregatingStats; only the project, category,
  project-language and category-language classes override it.
\<close>

fun category_set :: "agg_kind \<Rightarrow> agg_env \<Rightarrow> stats_obj list" where
  "category_set ProjectLanguageStats env = e_category_set env"
| "category_set CategoryLanguageStats env = e_category_set env"
| "category_set CategoryStats env = e_category_set env"
| "category_set ProjectStats env = e_category_set env"
| "category_set _ env = []"

section \<open>BaseStats: load, save, store\<close>

text \<open>\<open>load\<close>: \<open>cache.get(self.cache_key, {})\<close>.\<close>

definition load :: "self_state \<Rightarrow> record_data" where
  "load s = (case s_cache s of None \<Rightarrow> Map.empty | Some d \<Rightarrow> d)"

definition loaded :: "(self_state \<Rightarrow> record_data) \<Rightarrow> self_state \<Rightarrow> self_state" where
  "loaded ld s = (case s_data s of None \<Rightarrow> s\<lparr>s_data := Some (ld s)\<rparr> | Some d \<Rightarrow> s)"

definition the_data :: "self_state \<Rightarrow> record_data" where
  "the_data s = (case s_data s of None \<Rightarrow> Map.empty | Some d \<Rightarrow> d)"

text \<open>\<open>BaseStats.save\<close>: \<open>cache.set(self.cache_key, self._data, 30 * 86400)\<close>.\<close>

definition base_save :: "self_state \<Rightarrow> self_state" where
  "base_save s = s\<lparr>s_cache := Some (the_data s), s_sets := s_sets s @ [the_data s]\<rparr>"

text \<open>\<open>store(key, value)\<close>, with the class's \<open>load\<close> as parameter.\<close>

definition store ::
  "(self_state \<Rightarrow> record_data) \<Rightarrow> string \<Rightarrow> val \<Rightarrow> self_state \<Rightarrow> self_state" where
  "store ld key v s =
     (let s1 = loaded ld s in
      if v = VNone \<and> \<not> startswith key ''last_''
      then s1\<lparr>s_data := Some ((the_data s1)(key \<mapsto> VInt 0))\<rparr>
      else s1\<lparr>s_data := Some ((the_data s1)(key \<mapsto> v))\<rparr>)"

text \<open>\<open>for key, value in stats.items(): self.store(key, value)\<close>.\<close>

definition store_items ::
  "(self_state \<Rightarrow> record_data) \<Rightarrow> stats \<Rightarrow> self_state \<Rightarrow> self_state" where
  "store_items ld stats s = fold (\<lambda>(key, v) st. store ld key v st) stats s"

section \<open>AggregatingStats\<close>

text \<open>\<open>for item in keys: aggregate(stats, item, stats_obj)\<close>.\<close>

fun aggregate_keys :: "string list \<Rightarrow> stats_obj \<Rightarrow> stats \<Rightarrow> error + stats" where
  "aggregate_keys [] stats_obj stats = Inr stats"
| "aggregate_keys (item # items) stats_obj stats =
     (case aggregate stats item stats_obj of
        Inl e \<Rightarrow> Inl e
      | Inr stats' \<Rightarrow> aggregate_keys items stats_obj stats')"

text \<open>
  \<open>calculate_source\<close>: AggregatingStats adds the child's \<open>all_chars\<close>, \<open>all_words\<close>, \<open>all\<close>;
  ParentAggregatingStats aggregates the child's \<open>source_*\<close>; ComponentStats does nothing.
\<close>

fun calculate_source :: "agg_kind \<Rightarrow> stats_obj \<Rightarrow> stats \<Rightarrow> error + stats" where
  "calculate_source ComponentStats stats_obj stats = Inr stats"
| "calculate_source k stats_obj stats =
     (if k \<in> {CategoryStats, ProjectStats, ComponentListStats, GlobalStats}
      then aggregate_keys [''source_chars'', ''source_words'', ''source_strings''] stats_obj stats
      else
       (case add_item stats ''source_chars'' (so_num stats_obj ''all_chars'') of
          Inl e \<Rightarrow> Inl e
        | Inr s1 \<Rightarrow>
           (case add_item s1 ''source_words'' (so_num stats_obj ''all_words'') of
              Inl e \<Rightarrow> Inl e
            | Inr s2 \<Rightarrow> add_item s2 ''source_strings'' (so_num stats_obj ''all''))))"

fun object_loop :: "agg_kind \<Rightarrow> stats_obj list \<Rightarrow> stats \<Rightarrow> error + stats" where
  "object_loop k [] stats = Inr stats"
| "object_loop k (stats_obj # rest) stats =
     (case aggregate_keys BASIC_KEYS stats_obj stats of
        Inl e \<Rightarrow> Inl e
      | Inr s1 \<Rightarrow>
         (case calculate_source k stats_obj s1 of
            Inl e \<Rightarrow> Inl e
          | Inr s2 \<Rightarrow> object_loop k rest s2))"

fun category_loop :: "stats_obj list \<Rightarrow> stats \<Rightarrow> error + stats" where
  "category_loop [] stats = Inr stats"
| "category_loop (stats_obj # rest) stats =
     (case aggregate_keys SOURCE_KEYS stats_obj stats of
        Inl e \<Rightarrow> Inl e
      | Inr s1 \<Rightarrow> category_loop rest s1)"

text \<open>\<open>prefetch_source\<close>: a no-op except in ComponentStats.\<close>

fun prefetch_source :: "agg_kind \<Rightarrow> agg_env \<Rightarrow> self_state \<Rightarrow> self_state" where
  "prefetch_source ComponentStats env s =
     (case e_source_translation env of
        None \<Rightarrow>
          store load ''source_strings'' (VInt 0)
            (store load ''source_words'' (VInt 0)
              (store load ''source_chars'' (VInt 0) s))
      | Some stats_obj \<Rightarrow>
          store load ''source_strings'' (VInt (so_num stats_obj ''all''))
            (store load ''source_words'' (VInt (so_num stats_obj ''all_words''))
              (store load ''source_chars'' (VInt (so_num stats_obj ''all_chars'')) s)))"
| "prefetch_source _ env s = s"

text \<open>
  \<open>AggregatingStats._calculate_basic\<close>. The two loops work on the local \<open>stats\<close> only, so
  an exception in them leaves the object as it was.
\<close>

definition aggregating_calculate_basic ::
  "agg_kind \<Rightarrow> agg_env \<Rightarrow> self_state \<Rightarrow> error + self_state" where
  "aggregating_calculate_basic k env s =
     (case object_loop k (e_object_set env) (zero_stats SOURCE_KEYS) of
        Inl e \<Rightarrow> Inl e
      | Inr s1 \<Rightarrow>
         (case category_loop (category_set k env) s1 of
            Inl e \<Rightarrow> Inl e
          | Inr s2 \<Rightarrow> Inr (prefetch_source k env (store_items load s2 s))))"

text \<open>
  \<open>_calculate_basic\<close> of each aggregating class: SingleLanguageStats (the project-language
  and category-language classes) stores \<open>languages = 1\<close> afterwards, ProjectStats and
  GlobalStats store the count of languages.
\<close>

fun agg_calculate_basic :: "agg_kind \<Rightarrow> agg_env \<Rightarrow> self_state \<Rightarrow> error + self_state" where
  "agg_calculate_basic k env s =
     (case aggregating_calculate_basic k env s of
        Inl e \<Rightarrow> Inl e
      | Inr s1 \<Rightarrow>
          if k \<in> {ProjectLanguageStats, CategoryLanguageStats}
          then Inr (store load ''languages'' (VInt 1) s1)
          else if k \<in> {ProjectStats, GlobalStats}
          then Inr (store load ''languages'' (VInt (e_languages_count env)) s1)
          else Inr s1)"

section \<open>TranslationStats: the leaf computation\<close>

text \<open>
  The constants \<open>STATE_EMPTY\<close>, \<open>STATE_FUZZY\<close>, \<open>STATE_TRANSLATED\<close>, \<open>STATE_APPROVED\<close> and
  \<open>STATE_READONLY\<close> are imported from \<open>weblate.utils.state\<close>, which is not part of the
  source at hand; they are parameters of the model.
\<close>

record state_consts =
  STATE_EMPTY :: int
  STATE_FUZZY :: int
  STATE_TRANSLATED :: int
  STATE_APPROVED :: int
  STATE_READONLY :: int

text \<open>
  One row of \<open>unit_set\<close> with the four annotations of \<open>_calculate_basic\<close>: the columns the
  aggregate reads. \<open>u_source\<close> is the source text (\<open>Length("source")\<close> is its length) and
  \<open>u_labels_isnull\<close> is \<open>source_unit__labels__isnull\<close>.
\<close>

record unit_row =
  u_state :: int
  u_num_words :: int
  u_source :: string
  u_active_checks_count :: nat
  u_dismissed_checks_count :: nat
  u_suggestion_count :: nat
  u_comment_count :: nat
  u_labels_isnull :: bool

text \<open>
  Django's aggregates over the rows of a queryset: \<open>Count\<close> is the number of rows, \<open>Sum\<close>
  is the sum of a column and is \<open>None\<close> (SQL NULL) when there is no row.
\<close>

definition Count_rows :: "'a list \<Rightarrow> val" where
  "Count_rows rows = VInt (int (length rows))"

definition Sum_rows :: "('a \<Rightarrow> int) \<Rightarrow> 'a list \<Rightarrow> val" where
  "Sum_rows f rows = (if rows = [] then VNone else VInt (sum_list (map f rows)))"

text \<open>
  Modelled from the spec: \<open>conditional_sum\<close> of \<open>weblate.utils.db\<close>, which is not part of the
  source at hand. Per partition the leaf computes the item count, word sum and character
  sum of the rows that satisfy the partition's condition: the sum, over all rows, of the
  value where the condition holds and of 0 where it does not.
\<close>

definition conditional_sum :: "('a \<Rightarrow> int) \<Rightarrow> ('a \<Rightarrow> bool) \<Rightarrow> 'a list \<Rightarrow> val" where
  "conditional_sum value cond rows = Sum_rows (\<lambda>r. if cond r then value r else 0) rows"

definition Length_source :: "unit_row \<Rightarrow> int" where
  "Length_source u = int (length (u_source u))"

text \<open>
  The three aggregates \<open>x\<close>, \<open>x_words\<close>, \<open>x_chars\<close> of one partition:
  \<open>conditional_sum(1, cond)\<close>, \<open>conditional_sum("num_words", cond)\<close> and
  \<open>conditional_sum(Length("source"), cond)\<close>.
\<close>

definition partition_stats :: "string \<Rightarrow> (unit_row \<Rightarrow> bool) \<Rightarrow> unit_row list \<Rightarrow> stats" where
  "partition_stats name cond rows =
     [(name, conditional_sum (\<lambda>u. 1) cond rows),
      (name @ ''_words'', conditional_sum u_num_words cond rows),
      (name @ ''_chars'', conditional_sum Length_source cond rows)]"

text \<open>The result of \<open>base.aggregate(...)\<close>, in the order of the keyword arguments.\<close>

definition unit_aggregate :: "state_consts \<Rightarrow> unit_row list \<Rightarrow> stats" where
  "unit_aggregate c rows =
     [(''all'', Count_rows rows),
      (''all_words'', Sum_rows u_num_words rows),
      (''all_chars'', Sum_rows Length_source rows)] @
     partition_stats ''fuzzy'' (\<lambda>u. u_state u = STATE_FUZZY c) rows @
     partition_stats ''readonly'' (\<lambda>u. u_state u = STATE_READONLY c) rows @
     partition_stats ''translated'' (\<lambda>u. u_state u \<ge> STATE_TRANSLATED c) rows @
     partition_stats ''todo'' (\<lambda>u. u_state u < STATE_TRANSLATED c) rows @
     partition_stats ''nottranslated'' (\<lambda>u. u_state u = STATE_EMPTY c) rows @
     partition_stats ''approved'' (\<lambda>u. u_state u = STATE_APPROVED c) rows @
     partition_stats ''unapproved'' (\<lambda>u. u_state u = STATE_TRANSLATED c) rows @
     partition_stats ''unlabeled'' (\<lambda>u. u_labels_isnull u) rows @
     partition_stats ''allchecks'' (\<lambda>u. u_active_checks_count u > 0) rows @
     partition_stats ''translated_checks''
       (\<lambda>u. u_state u = STATE_TRANSLATED c \<and> u_active_checks_count u > 0) rows @
     partition_stats ''dismissed_checks'' (\<lambda>u. u_dismissed_checks_count u > 0) rows @
     partition_stats ''suggestions'' (\<lambda>u. u_suggestion_count u > 0) rows @
     partition_stats ''nosuggestions''
       (\<lambda>u. u_state u < STATE_TRANSLATED c \<and> u_suggestion_count u = 0) rows @
     partition_stats ''approved_suggestions''
       (\<lambda>u. u_state u \<ge> STATE_APPROVED c \<and> u_suggestion_count u > 0) rows @
     partition_stats ''comments'' (\<lambda>u. u_comment_count u > 0) rows"

text \<open>
  What a translation node reads from outside itself. \<open>t_last_change\<close> is the result of
  \<open>get_last_change_obj()\<close> (timestamp and \<open>author_id\<close> of the last change, or \<open>None\<close>),
  \<open>t_change_set\<close> the timestamps of \<open>change_set.content()\<close>, \<open>t_now\<close> the reading of
  \<open>timezone.now()\<close>. \<open>t_check_rows\<close> are the rows of the grouped query of
  \<open>calculate_checks\<close> (check name, strings, words, chars) and \<open>t_all_checks\<close> the
  \<open>url_id\<close>s of \<open>CHECKS\<close>; \<open>t_label_rows\<close> and \<open>t_all_labels\<close> are the same for
  \<open>calculate_labels\<close> (both queries chained, and the label names of the project).
\<close>

record translation_env =
  t_states :: state_consts
  t_unit_set :: "unit_row list"
  t_last_change :: "(int \<times> int option) option"
  t_change_set :: "int list"
  t_now :: int
  t_enable_review :: bool
  t_check_rows :: "(string option \<times> int \<times> int \<times> int) list"
  t_all_checks :: "string list"
  t_label_rows :: "(string option \<times> int \<times> int \<times> int) list"
  t_all_labels :: "string list"

text \<open>\<open>fetch_last_change\<close>.\<close>

definition fetch_last_change :: "translation_env \<Rightarrow> self_state \<Rightarrow> self_state" where
  "fetch_last_change env s =
     (case t_last_change env of
        None \<Rightarrow> store load ''last_author'' VNone (store load ''last_changed'' VNone s)
      | Some (timestamp, author_id) \<Rightarrow>
          store load ''last_author'' (int_val author_id)
            (store load ''last_changed'' (VDate timestamp) s))"

text \<open>Time spans in microseconds: \<open>timedelta(days=30)\<close> and \<open>timedelta(hours=6)\<close>.\<close>

definition days30 :: int where
  "days30 = 30 * 86400 * 1000000"

definition hours6 :: int where
  "hours6 = 6 * 3600 * 1000000"

text \<open>
  \<open>count_changes\<close>. \<open>self.last_changed\<close> is read through \<open>__getattr__\<close>; the key was stored
  by \<open>fetch_last_change\<close> just before, so the read returns the stored value. A value that
  is not a datetime cannot be subtracted from: TypeError.
\<close>

definition count_changes :: "translation_env \<Rightarrow> self_state \<Rightarrow> error + self_state" where
  "count_changes env s =
     (case the_data s ''last_changed'' of
        None \<Rightarrow> Inl (UnsupportedStats ''last_changed'')
      | Some lc \<Rightarrow>
          if truthy lc then
            (case lc of
               VDate last_changed \<Rightarrow>
                 (let monthly = t_now env - days30;
                      recently = last_changed - hours6;
                      changes = t_change_set env
                  in Inr (store load ''total_changes'' (Count_rows changes)
                       (store load ''monthly_changes''
                          (conditional_sum (\<lambda>t. 1) (\<lambda>t. t > monthly) changes)
                       (store load ''recent_changes''
                          (conditional_sum (\<lambda>t. 1) (\<lambda>t. t > recently) changes) s))))
             | _ \<Rightarrow> Inl TypeError)
          else
            Inr (store load ''total_changes'' (VInt 0)
                  (store load ''monthly_changes'' (VInt 0)
                    (store load ''recent_changes'' (VInt 0) s))))"

text \<open>\<open>TranslationStats._calculate_basic\<close>.\<close>

definition translation_calculate_basic ::
  "translation_env \<Rightarrow> self_state \<Rightarrow> error + self_state" where
  "translation_calculate_basic env s =
     (let stats = unit_aggregate (t_states env) (t_unit_set env);
          s1 = store_items load stats s;
          s2 = store load ''languages'' (VInt 1) s1;
          s3 = fetch_last_change env s2
      in count_changes env s3)"

text \<open>
  \<open>calculate_checks\<close>: the loop over the grouped rows stores three keys per named check
  and discards the check from \<open>allchecks\<close>; the checks left over are stored as zero.
\<close>

fun store_check_rows ::
  "(string option \<times> int \<times> int \<times> int) list \<Rightarrow> string list \<Rightarrow> self_state \<Rightarrow>
   string list \<times> self_state" where
  "store_check_rows [] allchecks s = (allchecks, s)"
| "store_check_rows ((None, strings, words, chars) # rows) allchecks s =
     store_check_rows rows allchecks s"
| "store_check_rows ((Some name, strings, words, chars) # rows) allchecks s =
     (let check = ''check:'' @ name;
          s1 = store load check (VInt strings) s;
          s2 = store load (check @ ''_words'') (VInt words) s1;
          s3 = store load (check @ ''_chars'') (VInt chars) s2
      in store_check_rows rows (removeAll check allchecks) s3)"

fun store_zero :: "string list \<Rightarrow> self_state \<Rightarrow> self_state" where
  "store_zero [] s = s"
| "store_zero (key # keys) s =
     store_zero keys
       (store load (key @ ''_chars'') (VInt 0)
         (store load (key @ ''_words'') (VInt 0)
           (store load key (VInt 0) s)))"

text \<open>
  \<open>calculate_labels\<close>: as above, but the set \<open>alllabels\<close> holds the bare label names and
  the stored keys carry the prefix \<open>label:\<close>.
\<close>

fun store_label_rows ::
  "(string option \<times> int \<times> int \<times> int) list \<Rightarrow> string list \<Rightarrow> self_state \<Rightarrow>
   string list \<times> self_state" where
  "store_label_rows [] alllabels s = (alllabels, s)"
| "store_label_rows ((None, strings, words, chars) # rows) alllabels s =
     store_label_rows rows alllabels s"
| "store_label_rows ((Some label_name, strings, words, chars) # rows) alllabels s =
     (let label = ''label:'' @ label_name;
          s1 = store load label (VInt strings) s;
          s2 = store load (label @ ''_words'') (VInt words) s1;
          s3 = store load (label @ ''_chars'') (VInt chars) s2
      in store_label_rows rows (removeAll label_name alllabels) s3)"

text \<open>
  \<open>TranslationStats.save\<close>: the cache write of BaseStats, then the registration of the
  parents' update with \<open>transaction.on_commit\<close> when \<open>update_parents\<close> is set.
\<close>

definition translation_save :: "bool \<Rightarrow> self_state \<Rightarrow> self_state" where
  "translation_save update_parents s =
     (let s1 = base_save s in
      if update_parents then s1\<lparr>s_on_commit := s_on_commit s1 + 1\<rparr> else s1)"

definition calculate_checks :: "translation_env \<Rightarrow> self_state \<Rightarrow> self_state" where
  "calculate_checks env s =
     (case store_check_rows (t_check_rows env) (t_all_checks env) s of
        (allchecks, s1) \<Rightarrow> translation_save True (store_zero allchecks s1))"

definition calculate_labels :: "translation_env \<Rightarrow> self_state \<Rightarrow> self_state" where
  "calculate_labels env s =
     (case store_label_rows (t_label_rows env) (t_all_labels env) s of
        (alllabels, s1) \<Rightarrow>
          translation_save True (store_zero (map (\<lambda>label_name. ''label:'' @ label_name) alllabels) s1))"

section \<open>The stats classes\<close>

text \<open>
  A stats object is a translation, one of the aggregating classes, a
  DummyTranslationStats or a GhostStats (with its optional \<open>base\<close>).
\<close>

datatype node =
    Translation translation_env
  | Aggregating agg_kind agg_env
  | DummyTranslation
  | Ghost "stats_obj option"

text \<open>\<open>load\<close>: DummyTranslationStats and GhostStats return \<open>{}\<close>.\<close>

fun node_load :: "node \<Rightarrow> self_state \<Rightarrow> record_data" where
  "node_load (Translation env) s = load s"
| "node_load (Aggregating k env) s = load s"
| "node_load DummyTranslation s = Map.empty"
| "node_load (Ghost base) s = Map.empty"

text \<open>\<open>save\<close>: DummyTranslationStats and GhostStats return at once.\<close>

fun save :: "node \<Rightarrow> bool \<Rightarrow> self_state \<Rightarrow> self_state" where
  "save (Translation env) update_parents s = translation_save update_parents s"
| "save (Aggregating k env) update_parents s = base_save s"
| "save DummyTranslation update_parents s = s"
| "save (Ghost base) update_parents s = s"

fun basic_keys :: "node \<Rightarrow> string list" where
  "basic_keys (Translation env) = BASIC_KEYS"
| "basic_keys (Aggregating k env) = SOURCE_KEYS"
| "basic_keys DummyTranslation = BASIC_KEYS"
| "basic_keys (Ghost base) = SOURCE_KEYS"

fun has_review :: "node \<Rightarrow> bool" where
  "has_review (Translation env) = t_enable_review env"
| "has_review (Aggregating k env) =
     (if k \<in> {ComponentStats, ProjectLanguageStats, CategoryLanguageStats, ProjectStats}
      then e_has_review env else True)"
| "has_review DummyTranslation = True"
| "has_review (Ghost base) = True"

text \<open>\<open>GhostStats._calculate_basic\<close>; \<open>stats[key] = value\<close> on the local dictionary.\<close>

definition ghost_calculate_basic :: "stats_obj option \<Rightarrow> self_state \<Rightarrow> self_state" where
  "ghost_calculate_basic base s =
     (let stats = zero_stats SOURCE_KEYS;
          stats' =
            (case base of
               None \<Rightarrow> stats
             | Some b \<Rightarrow>
                (let st1 = AList.update ''all'' (VInt (so_num b ''all'')) stats;
                     st2 = AList.update ''all_words'' (VInt (so_num b ''all_words'')) st1;
                     st3 = AList.update ''all_chars'' (VInt (so_num b ''all_chars'')) st2;
                     st4 = AList.update ''todo'' (VInt (so_num b ''all'')) st3;
                     st5 = AList.update ''todo_words'' (VInt (so_num b ''all_words'')) st4
                 in AList.update ''todo_chars'' (VInt (so_num b ''all_chars'')) st5))
      in store_items (\<lambda>s. Map.empty) stats' s)"

text \<open>
  \<open>_calculate_basic\<close> by class. DummyTranslationStats assigns \<open>_data\<close> directly. An
  exception is raised before the object is touched, so the state is returned only on
  success.
\<close>

fun calculate_basic_impl :: "node \<Rightarrow> self_state \<Rightarrow> error + self_state" where
  "calculate_basic_impl (Translation env) s = translation_calculate_basic env s"
| "calculate_basic_impl (Aggregating k env) s = agg_calculate_basic k env s"
| "calculate_basic_impl DummyTranslation s =
     Inr (s\<lparr>s_data := Some (map_of (zero_stats BASIC_KEYS))\<rparr>)"
| "calculate_basic_impl (Ghost base) s = Inr (ghost_calculate_basic base s)"

text \<open>
  \<open>calculate_basic\<close>: \<open>_calculate_basic\<close>, then \<open>store("stats_timestamp", monotonic())\<close>;
  \<open>now\<close> is the reading of the monotonic clock.
\<close>

definition calculate_basic :: "node \<Rightarrow> rat \<Rightarrow> self_state \<Rightarrow> (error + unit) \<times> self_state" where
  "calculate_basic node now s =
     (case calculate_basic_impl node s of
        Inl e \<Rightarrow> (Inl e, s)
      | Inr s1 \<Rightarrow> (Inr (), store (node_load node) ''stats_timestamp'' (VFloat now) s1))"

text \<open>\<open>calculate_by_name\<close>: BaseStats, extended by TranslationStats.\<close>

definition base_calculate_by_name ::
  "node \<Rightarrow> rat \<Rightarrow> string \<Rightarrow> self_state \<Rightarrow> (error + unit) \<times> self_state" where
  "base_calculate_by_name node now name s =
     (if name \<in> set (basic_keys node) then
        (case calculate_basic node now s of
           (Inl e, s1) \<Rightarrow> (Inl e, s1)
         | (Inr u, s1) \<Rightarrow> (Inr (), save node True s1))
      else (Inr (), s))"

definition calculate_by_name ::
  "node \<Rightarrow> rat \<Rightarrow> string \<Rightarrow> self_state \<Rightarrow> (error + unit) \<times> self_state" where
  "calculate_by_name node now name s =
     (case base_calculate_by_name node now name s of
        (Inl e, s1) \<Rightarrow> (Inl e, s1)
      | (Inr u, s1) \<Rightarrow>
         (case node of
            Translation env \<Rightarrow>
              if startswith name ''check:'' then (Inr (), calculate_checks env s1)
              else if startswith name ''label:'' then (Inr (), calculate_labels env s1)
              else (Inr (), s1)
          | _ \<Rightarrow> (Inr (), s1)))"

text \<open>
  Modelled from the spec: \<open>translation_percent\<close> of \<open>weblate.trans.util\<close>, which is not part
  of the source at hand. The result is 100 if the denominator is 0 and \<open>zero_complete\<close> is
  true, 0 if the denominator is 0 and \<open>zero_complete\<close> is false, and otherwise
  numerator / denominator * 100, unclamped.
\<close>

definition translation_percent :: "int \<Rightarrow> int \<Rightarrow> bool \<Rightarrow> rat" where
  "translation_percent translated total_n zero_complete =
     (if total_n = 0 then (if zero_complete then 100 else 0)
      else of_int translated / of_int total_n * 100)"

text \<open>The call on the values read from the record; it is defined on counts.\<close>

fun translation_percent_val :: "val \<Rightarrow> val \<Rightarrow> bool \<Rightarrow> error + val" where
  "translation_percent_val (VInt translated) (VInt total_n) zero_complete =
     Inr (VFloat (translation_percent translated total_n zero_complete))"
| "translation_percent_val _ _ zero_complete = Inl TypeError"

text \<open>
  \<open>__getattr__\<close> and \<open>calculate_percent\<close>. They call each other: a percent name is handed
  to \<open>calculate_percent\<close>, which reads the denominator and the antecedent key
  \<open>item[:-8]\<close> through \<open>__getattr__\<close> again. The state returned with an error is the state
  at the time the exception was raised.
\<close>

function getattr :: "node \<Rightarrow> rat \<Rightarrow> string \<Rightarrow> self_state \<Rightarrow> (error + val) \<times> self_state"
  and calculate_percent ::
    "node \<Rightarrow> rat \<Rightarrow> string \<Rightarrow> self_state \<Rightarrow> (error + val) \<times> self_state" where
  "getattr node now name s =
     (if startswith name ''_'' then (Inl (InvalidStats name), s)
      else
       (let s1 = loaded (node_load node) s in
        if endswith name ''_percent'' then calculate_percent node now name s1
        else if name = ''stats_timestamp'' then
          (Inr (case the_data s1 name of None \<Rightarrow> VInt 0 | Some v \<Rightarrow> v), s1)
        else
         (case the_data s1 name of
            Some v \<Rightarrow> (Inr v, s1)
          | None \<Rightarrow>
             (let was_pending = s_pending_save s1;
                  s2 = s1\<lparr>s_pending_save := True\<rparr>
              in case calculate_by_name node now name s2 of
                   (Inl e, s3) \<Rightarrow> (Inl e, s3)
                 | (Inr u, s3) \<Rightarrow>
                    (case the_data s3 name of
                       None \<Rightarrow> (Inl (UnsupportedStats name), s3)
                     | Some v \<Rightarrow>
                         if \<not> was_pending
                         then (Inr v, (save node True s3)\<lparr>s_pending_save := False\<rparr>)
                         else (Inr v, s3))))))"
| "calculate_percent node now item s =
     (let base = take (length item - 8) item;
          total_name =
            (if endswith base ''_words'' then ''all_words''
             else if endswith base ''_chars'' then ''all_chars''
             else ''all'')
      in case getattr node now total_name s of
           (Inl e, s1) \<Rightarrow> (Inl e, s1)
         | (Inr total_n, s1) \<Rightarrow>
            (let completed =
                   (if has_review node
                    then [''approved'', ''approved_words'', ''approved_chars'']
                    else [''translated'', ''translated_words'', ''translated_chars''])
             in case getattr node now base s1 of
                  (Inl e, s2) \<Rightarrow> (Inl e, s2)
                | (Inr v, s2) \<Rightarrow>
                    (translation_percent_val v total_n (base \<in> set completed), s2)))"
  by pat_completeness auto
termination
proof -
  have len: "8 \<le> length n" if "endswith n ''_percent''" for n :: string
  proof -
    from that have "drop (length n - length ''_percent'') n = ''_percent''"
      by (simp only: endswith_def)
    then have "length (drop (length n - length ''_percent'') n) = length ''_percent''"
      by (simp only:)
    then show ?thesis by simp
  qed
  show ?thesis
    apply (relation "measure (\<lambda>x. case x of
          Inl (node, now, name, s) \<Rightarrow> (if endswith name ''_percent'' then 2 * length name + 2 else 0)
        | Inr (node, now, item, s) \<Rightarrow> 2 * length item + 1)")
       apply simp
      apply simp
     apply (simp add: endswith_def)
    apply (auto split: if_splits dest!: len)
    done
qed

text \<open>\<open>clear\<close> and \<open>update_stats\<close>; \<open>lazy\<close> is \<open>settings.STATS_LAZY\<close>.\<close>

definition clear :: "self_state \<Rightarrow> self_state" where
  "clear s = s\<lparr>s_data := Some Map.empty\<rparr>"

definition update_stats ::
  "node \<Rightarrow> bool \<Rightarrow> bool \<Rightarrow> rat \<Rightarrow> self_state \<Rightarrow> (error + unit) \<times> self_state" where
  "update_stats node lazy update_parents now s =
     (let s1 = clear s in
      if lazy then (Inr (), save node update_parents s1)
      else
        (case calculate_basic node now s1 of
           (Inl e, s2) \<Rightarrow> (Inl e, s2)
         | (Inr u, s2) \<Rightarrow> (Inr (), save node update_parents s2)))"

section \<open>Updating the parents\<close>

text \<open>
  The \<open>cache_key\<close> of a stats object is \<open>stats-\<close> followed by the \<open>cache_key\<close> of its
  object (a property of the models, which are not part of the source at hand), and
  \<open>stats-global\<close> for GlobalStats. A key is represented by the class of the object and
  its primary keys; a project-language pair has the key of the project followed by the
  primary key of the language.
\<close>

datatype stats_key =
    KGlobal
  | KLanguage nat
  | KComponent nat
  | KProject nat
  | KCategory nat
  | KComponentList nat
  | KProjectLanguage nat nat

text \<open>A stats object met while updating: its key and its \<open>_data\<close>.\<close>

record stat =
  st_key :: stats_key
  st_data :: "record_data option"

text \<open>
  The objects the \<open>get_update_objects\<close> generators walk over: a category with its project
  and parent category, a component with its project, category and component lists, a
  translation with its language and component.
\<close>

datatype category = Category (category_pk: nat) (category_project: nat) (category_category: "category option")

record component =
  component_pk :: nat
  component_project :: nat
  component_category :: "category option"
  component_componentlist_set :: "nat list"

record translation =
  translation_language :: nat
  translation_component :: component

text \<open>
  \<open>obj.stats\<close> is a cached property of a model object, so the stats object may hold
  data already: \<open>mem\<close> gives the \<open>_data\<close> of the stats object under a key. \<open>GlobalStats()\<close>
  is created anew at each \<open>yield\<close>.
\<close>

definition stats_of :: "(stats_key \<Rightarrow> record_data option) \<Rightarrow> stats_key \<Rightarrow> stat" where
  "stats_of mem k = \<lparr>st_key = k, st_data = mem k\<rparr>"

definition base_get_update_objects :: "stat list" where
  "base_get_update_objects = [\<lparr>st_key = KGlobal, st_data = None\<rparr>]"

fun category_get_update_objects ::
  "(stats_key \<Rightarrow> record_data option) \<Rightarrow> category \<Rightarrow> stat list" where
  "category_get_update_objects mem (Category pk project parent) =
     [stats_of mem (KProject project)] @ base_get_update_objects @
     (case parent of
        None \<Rightarrow> []
      | Some c \<Rightarrow> [stats_of mem (KCategory (category_pk c))] @ category_get_update_objects mem c) @
     base_get_update_objects"

definition component_get_update_objects ::
  "(stats_key \<Rightarrow> record_data option) \<Rightarrow> component \<Rightarrow> stat list" where
  "component_get_update_objects mem c =
     [stats_of mem (KProject (component_project c))] @ base_get_update_objects @
     (case component_category c of
        None \<Rightarrow> []
      | Some cat \<Rightarrow>
          [stats_of mem (KCategory (category_pk cat))] @ category_get_update_objects mem cat) @
     concat (map (\<lambda>clist. [stats_of mem (KComponentList clist)] @ base_get_update_objects)
               (component_componentlist_set c)) @
     base_get_update_objects"

definition translation_get_update_objects ::
  "(stats_key \<Rightarrow> record_data option) \<Rightarrow> translation \<Rightarrow> stat list" where
  "translation_get_update_objects mem t =
     (let c = translation_component t in
      [stats_of mem (KLanguage (translation_language t))] @ base_get_update_objects @
      [stats_of mem (KComponent (component_pk c))] @ component_get_update_objects mem c @
      [\<lparr>st_key = KProjectLanguage (component_project c) (translation_language t),
        st_data = None\<rparr>] @ base_get_update_objects @
      base_get_update_objects)"

text \<open>
  \<open>stat_objects[stat.cache_key] = stat\<close> for each stat in turn: a key met again keeps its
  place and takes the later object.
\<close>

definition add_stats :: "stat list \<Rightarrow> (stats_key \<times> stat) list \<Rightarrow> (stats_key \<times> stat) list" where
  "add_stats sts d = fold (\<lambda>stat d. AList.update (st_key stat) stat d) sts d"

text \<open>
  \<open>prefetch_many\<close>: \<open>lookup\<close> maps each key to the last unloaded object with that key;
  these objects receive the cache entry, or \<open>{}\<close> when the cache has none.
\<close>

fun prefetch_many :: "(stats_key \<rightharpoonup> record_data) \<Rightarrow> stat list \<Rightarrow> stat list" where
  "prefetch_many cache [] = []"
| "prefetch_many cache (i # rest) =
     (if st_data i = None \<and> st_key i \<notin> st_key ` set (filter (\<lambda>j. st_data j = None) rest)
      then i\<lparr>st_data := Some (case cache (st_key i) of None \<Rightarrow> Map.empty | Some d \<Rightarrow> d)\<rparr>
      else i) # prefetch_many cache rest"

definition prefetch_stats :: "(stats_key \<rightharpoonup> record_data) \<Rightarrow> stat list \<Rightarrow> stat list" where
  "prefetch_stats cache objects = (if objects = [] then objects else prefetch_many cache objects)"

text \<open>\<open>a <= b\<close> on the values a timestamp can hold; other operands raise TypeError.\<close>

fun val_le :: "val \<Rightarrow> val \<Rightarrow> error + bool" where
  "val_le (VInt a) (VInt b) = Inr (a \<le> b)"
| "val_le (VInt a) (VFloat b) = Inr (of_int a \<le> b)"
| "val_le (VFloat a) (VInt b) = Inr (a \<le> of_int b)"
| "val_le (VFloat a) (VFloat b) = Inr (a \<le> b)"
| "val_le (VDate a) (VDate b) = Inr (a \<le> b)"
| "val_le _ _ = Inl TypeError"

text \<open>\<open>stat.stats_timestamp\<close>: \<open>_data.get("stats_timestamp", 0)\<close>, after loading if needed.\<close>

definition stat_stats_timestamp :: "(stats_key \<rightharpoonup> record_data) \<Rightarrow> stat \<Rightarrow> val" where
  "stat_stats_timestamp cache stat =
     (let d = (case st_data stat of
                 Some d \<Rightarrow> d
               | None \<Rightarrow> (case cache (st_key stat) of None \<Rightarrow> Map.empty | Some d \<Rightarrow> d))
      in case d ''stats_timestamp'' of None \<Rightarrow> VInt 0 | Some v \<Rightarrow> v)"

text \<open>
  The loop of \<open>update_parents\<close>. \<open>stat.update_stats()\<close> writes the recomputed record of
  that object to the cache; \<open>recompute\<close> stands for the record it computes, which depends
  on the objects behind the key and on the cache. The second component lists the keys
  whose stats were updated, in order.
\<close>

fun update_loop ::
  "val \<Rightarrow> (stats_key \<Rightarrow> (stats_key \<rightharpoonup> record_data) \<Rightarrow> record_data) \<Rightarrow> stat list \<Rightarrow>
   (stats_key \<rightharpoonup> record_data) \<times> stats_key list \<Rightarrow>
   error + (stats_key \<rightharpoonup> record_data) \<times> stats_key list" where
  "update_loop self_ts recompute [] acc = Inr acc"
| "update_loop self_ts recompute (stat # rest) (cache, updated) =
     (if truthy self_ts then
        (case val_le self_ts (stat_stats_timestamp cache stat) of
           Inl e \<Rightarrow> Inl e
         | Inr skip \<Rightarrow>
             if skip then update_loop self_ts recompute rest (cache, updated)
             else update_loop self_ts recompute rest
                    (cache(st_key stat \<mapsto> recompute (st_key stat) cache),
                     updated @ [st_key stat]))
      else update_loop self_ts recompute rest
             (cache(st_key stat \<mapsto> recompute (st_key stat) cache), updated @ [st_key stat]))"

text \<open>
  \<open>update_parents\<close> of a leaf: \<open>update_objects\<close> are the objects \<open>get_update_objects()\<close>
  yields, \<open>self.stats_timestamp\<close> is read from the leaf through \<open>__getattr__\<close>. The leaf
  is not among its own parents, so the updates in the loop leave its record alone.
\<close>

definition update_parents ::
  "node \<Rightarrow> rat \<Rightarrow> self_state \<Rightarrow> stat list \<Rightarrow> stat list option \<Rightarrow>
   (stats_key \<rightharpoonup> record_data) \<Rightarrow>
   (stats_key \<Rightarrow> (stats_key \<rightharpoonup> record_data) \<Rightarrow> record_data) \<Rightarrow>
   error + (stats_key \<rightharpoonup> record_data) \<times> stats_key list" where
  "update_parents node now s update_objects extra_objects cache recompute =
     (let stat_objects = add_stats update_objects [];
          stat_objects' =
            (case extra_objects of
               None \<Rightarrow> stat_objects
             | Some extra \<Rightarrow> add_stats extra stat_objects)
      in case fst (getattr node now ''stats_timestamp'' s) of
           Inl e \<Rightarrow> Inl e
         | Inr self_ts \<Rightarrow>
             update_loop self_ts recompute
               (prefetch_stats cache (map snd stat_objects')) (cache, []))"

section \<open>The count of languages\<close>

text \<open>
  Modelled from the spec: \<open>Project.languages\<close> and \<open>Language.objects.have_translation()\<close>,
  which belong to the models and are not part of the source at hand. At project and at
  global scope \<open>languages\<close> is a distinct count of the languages among the descendants;
  \<open>descendants\<close> lists, for each descendant component, the languages of its translations.
\<close>

definition languages :: "nat list list \<Rightarrow> nat list" where
  "languages descendants = remdups (concat descendants)"

definition languages_count :: "nat list list \<Rightarrow> int" where
  "languages_count descendants = int (length (languages descendants))"

section \<open>Notions used in the proofs\<close>

text \<open>What \<open>store\<close> writes for a value: \<open>None\<close> becomes 0 unless the key starts with \<open>last_\<close>.\<close>

definition conv :: "string \<Rightarrow> val \<Rightarrow> val" where
  "conv key v = (if v = VNone \<and> \<not> startswith key ''last_'' then VInt 0 else v)"

text \<open>The record a \<open>store\<close> works on: \<open>_data\<close>, loaded first when it is \<open>None\<close>.\<close>

definition ldata :: "(self_state \<Rightarrow> record_data) \<Rightarrow> self_state \<Rightarrow> record_data" where
  "ldata ld s = (case s_data s of None \<Rightarrow> ld s | Some d \<Rightarrow> d)"

text \<open>The keys of \<open>SOURCE_KEYS\<close> that hold numbers.\<close>

definition numkey :: "string \<Rightarrow> bool" where
  "numkey k \<longleftrightarrow> k \<in> set SOURCE_KEYS \<and> k \<noteq> ''last_changed'' \<and> k \<noteq> ''last_author''"

definition num_of :: "stats \<Rightarrow> string \<Rightarrow> int" where
  "num_of stats k = (case map_of stats k of Some (VInt a) \<Rightarrow> a | _ \<Rightarrow> 0)"

definition lc_of :: "stats \<Rightarrow> val \<times> val" where
  "lc_of stats =
     (case map_of stats ''last_changed'' of Some v \<Rightarrow> v | None \<Rightarrow> VNone,
      case map_of stats ''last_author'' of Some v \<Rightarrow> v | None \<Rightarrow> VNone)"

text \<open>The step of the \<open>last_changed\<close> branch of \<open>aggregate\<close> on the pair it maintains.\<close>

definition merge_last :: "stats_obj \<Rightarrow> val \<times> val \<Rightarrow> val \<times> val" where
  "merge_last so p =
     (case so_last_changed so of
        None \<Rightarrow> p
      | Some t \<Rightarrow> if \<not> truthy (fst p) \<or> date_less (fst p) t
                  then (VDate t, int_val (so_last_author so)) else p)"

text \<open>The shape of the local dictionary between two steps of the aggregation.\<close>

definition wf_stats :: "stats \<Rightarrow> bool" where
  "wf_stats stats \<longleftrightarrow>
     distinct (map fst stats) \<and>
     (\<forall>k. numkey k \<longrightarrow> (\<exists>a. map_of stats k = Some (VInt a))) \<and>
     (map_of stats ''last_changed'' = Some VNone \<or>
        (\<exists>t. map_of stats ''last_changed'' = Some (VDate t))) \<and>
     map_of stats ''last_author'' \<noteq> None \<and>
     map_of stats ''stats_timestamp'' = Some (VInt 0)"

text \<open>
  What one child of \<open>object_set\<close> adds to a numeric key: its own value for a key of
  \<open>BASIC_KEYS\<close>; for a \<open>source_*\<close> key, whatever \<open>calculate_source\<close> of the class adds.
\<close>

definition source_of :: "string \<Rightarrow> string" where
  "source_of k = (if k = ''source_chars'' then ''all_chars''
                  else if k = ''source_words'' then ''all_words'' else ''all'')"

definition object_contrib :: "agg_kind \<Rightarrow> stats_obj \<Rightarrow> string \<Rightarrow> int" where
  "object_contrib kind so k =
     (if k \<in> set BASIC_KEYS then so_num so k
      else if kind = ComponentStats then 0
      else if kind \<in> {CategoryStats, ProjectStats, ComponentListStats, GlobalStats}
      then so_num so k
      else so_num so (source_of k))"

text \<open>
  The stat objects the loop of \<open>update_parents\<close> runs over, the leaf's own
  \<open>stats_timestamp\<close> as \<open>__getattr__\<close> returns it, and the test that skips an object.
\<close>

definition stat_objects ::
  "(stats_key \<rightharpoonup> record_data) \<Rightarrow> stat list \<Rightarrow> stat list option \<Rightarrow> stat list" where
  "stat_objects cache update_objects extra_objects =
     prefetch_stats cache
       (map snd (case extra_objects of
                   None \<Rightarrow> add_stats update_objects []
                 | Some extra \<Rightarrow> add_stats extra (add_stats update_objects [])))"

definition self_timestamp :: "node \<Rightarrow> self_state \<Rightarrow> val" where
  "self_timestamp node s =
     (case the_data (loaded (node_load node) s) ''stats_timestamp'' of
        None \<Rightarrow> VInt 0 | Some v \<Rightarrow> v)"

definition skipped :: "val \<Rightarrow> (stats_key \<rightharpoonup> record_data) \<Rightarrow> stat \<Rightarrow> bool" where
  "skipped self_ts cache stat =
     (truthy self_ts \<and> val_le self_ts (stat_stats_timestamp cache stat) = Inr True)"

text \<open>The classes whose \<open>save\<close> writes to the cache.\<close>

definition persists :: "node \<Rightarrow> bool" where
  "persists node = (case node of Translation env \<Rightarrow> True | Aggregating k env \<Rightarrow> True | _ \<Rightarrow> False)"

text \<open>The partitions of the leaf computation, in the order of the aggregate's arguments.\<close>

definition leaf_partitions :: "string list" where
  "leaf_partitions =
     [''all'', ''fuzzy'', ''readonly'', ''translated'', ''todo'', ''nottranslated'',
      ''approved'', ''unapproved'', ''unlabeled'', ''allchecks'', ''translated_checks'',
      ''dismissed_checks'', ''suggestions'', ''nosuggestions'', ''approved_suggestions'',
      ''comments'']"

section \<open>Example inputs\<close>

text \<open>Two children, the second changed more recently and computed earlier than the first.\<close>

definition child_a :: stats_obj where
  "child_a = \<lparr>so_num = (\<lambda>k. 3), so_last_changed = Some 10, so_last_author = Some 1,
              so_stats_timestamp = 100\<rparr>"

definition child_b :: stats_obj where
  "child_b = \<lparr>so_num = (\<lambda>k. 4), so_last_changed = Some 20, so_last_author = Some 2,
              so_stats_timestamp = 7\<rparr>"

definition example_env :: agg_env where
  "example_env = \<lparr>e_object_set = [child_a, child_b], e_category_set = [child_a],
                  e_source_translation = Some child_a, e_languages_count = 1,
                  e_has_review = True\<rparr>"

text \<open>An object that has not been loaded, with nothing in the cache.\<close>

definition fresh :: self_state where
  "fresh = \<lparr>s_data = None, s_pending_save = False, s_cache = None, s_sets = [],
            s_on_commit = 0\<rparr>"

text \<open>
  An instance of the state constants that respects the order
  empty < fuzzy < translated < approved, with read-only as a fifth value of the column.
\<close>

definition example_states :: state_consts where
  "example_states = \<lparr>STATE_EMPTY = 0, STATE_FUZZY = 10, STATE_TRANSLATED = 20,
                     STATE_APPROVED = 30, STATE_READONLY = 100\<rparr>"

definition readonly_unit :: unit_row where
  "readonly_unit = \<lparr>u_state = 100, u_num_words = 2, u_source = ''ab'',
                    u_active_checks_count = 0, u_dismissed_checks_count = 0,
                    u_suggestion_count = 0, u_comment_count = 0, u_labels_isnull = True\<rparr>"

text \<open>A translation with one read-only unit and no change, and one without units.\<close>

definition example_translation :: translation_env where
  "example_translation =
     \<lparr>t_states = example_states, t_unit_set = [readonly_unit], t_last_change = None,
      t_change_set = [], t_now = 0, t_enable_review = True, t_check_rows = [],
      t_all_checks = [''check:same''], t_label_rows = [], t_all_labels = []\<rparr>"

definition empty_translation :: translation_env where
  "empty_translation = example_translation\<lparr>t_unit_set := []\<rparr>"



text \<open>
  A translation of language 1 in component 2 of project 3 (no category, no component
  list), a cache that holds a record for the global node only, computed at 20, and a
  leaf whose record was computed at 10.
\<close>

definition example_entity :: translation where
  "example_entity =
     \<lparr>translation_language = 1,
      translation_component =
        \<lparr>component_pk = 2, component_project = 3, component_category = None,
         component_componentlist_set = []\<rparr>\<rparr>"

definition example_cache :: "stats_key \<rightharpoonup> record_data" where
  "example_cache = [KGlobal \<mapsto> [''stats_timestamp'' \<mapsto> VFloat 20]]"

definition computed_leaf :: self_state where
  "computed_leaf = fresh\<lparr>s_data := Some [''stats_timestamp'' \<mapsto> VFloat 10]\<rparr>"

section \<open>Facts about the keys\<close>

lemma distinct_SOURCE_KEYS: "distinct SOURCE_KEYS"
  by (simp add: SOURCE_KEYS_def BASIC_KEYS_def BASICS_def)

lemma distinct_BASIC_KEYS: "distinct BASIC_KEYS"
  using distinct_SOURCE_KEYS by (simp add: SOURCE_KEYS_def)

lemma ts_notin: "''stats_timestamp'' \<notin> set SOURCE_KEYS"
  by (simp add: SOURCE_KEYS_def BASIC_KEYS_def BASICS_def)

lemma numkey_not_ts: "numkey k \<Longrightarrow> k \<noteq> ''stats_timestamp''"
  using ts_notin by (auto simp: numkey_def)

lemma BASIC_sub: "set BASIC_KEYS \<subseteq> set SOURCE_KEYS" by (auto simp add: SOURCE_KEYS_def)

lemma source_keys_not_basic:
  "''source_chars'' \<notin> set BASIC_KEYS" "''source_words'' \<notin> set BASIC_KEYS"
  "''source_strings'' \<notin> set BASIC_KEYS"
  using distinct_SOURCE_KEYS by (auto simp: SOURCE_KEYS_def)

lemma last_in_basic: "''last_changed'' \<in> set BASIC_KEYS" "''last_author'' \<in> set BASIC_KEYS" "''languages'' \<in> set BASIC_KEYS"
  by (simp_all add: BASIC_KEYS_def)

lemma numkey_source: "numkey ''source_chars''" "numkey ''source_words''" "numkey ''source_strings''"
  by (simp_all add: numkey_def SOURCE_KEYS_def)

lemma numkey_cases: "numkey k \<Longrightarrow> k \<in> set BASIC_KEYS \<or> k = ''source_chars'' \<or> k = ''source_words'' \<or> k = ''source_strings''"
  by (auto simp: numkey_def SOURCE_KEYS_def)

subsection \<open>The zeroed dictionary\<close>

lemma map_of_fold_update:
  "map_of (fold (\<lambda>item st. AList.update item v st) ks al) k =
     (if k \<in> set ks then Some v else map_of al k)"
  by (induction ks arbitrary: al) (auto simp: update_conv')

lemma distinct_fold_update:
  "distinct (map fst al) \<Longrightarrow> distinct (map fst (fold (\<lambda>item st. AList.update item v st) ks al))"
  by (induction ks arbitrary: al) (auto simp: distinct_update)

lemma map_of_zero_stats:
  "map_of (zero_stats ks) k =
     (if k = ''stats_timestamp'' then Some (VInt 0)
      else if k = ''last_author'' \<or> k = ''last_changed'' then Some VNone
      else if k \<in> set ks then Some (VInt 0) else None)"
  by (simp add: zero_stats_def update_conv' map_of_fold_update)

lemma distinct_zero_stats: "distinct (map fst (zero_stats ks))"
  by (simp add: zero_stats_def distinct_update distinct_fold_update)

lemma wf_zero_stats: "wf_stats (zero_stats SOURCE_KEYS)"
  unfolding wf_stats_def
  using numkey_not_ts
  by (auto simp add: map_of_zero_stats distinct_zero_stats numkey_def simp del: map_of_eq_Some_iff)

lemma num_of_zero_stats: "num_of (zero_stats ks) k = 0"
  by (simp add: num_of_def map_of_zero_stats)

lemma lc_of_zero_stats: "lc_of (zero_stats ks) = (VNone, VNone)"
  by (simp add: lc_of_def map_of_zero_stats)

subsection \<open>One call of \<open>aggregate\<close>\<close>

lemma add_item_num:
  assumes "wf_stats stats" "numkey item"
  shows "\<exists>stats'. add_item stats item n = Inr stats' \<and> wf_stats stats' \<and>
           map_of stats' = (map_of stats)(item \<mapsto> VInt (num_of stats item + n))"
proof -
  from assms obtain a where a: "map_of stats item = Some (VInt a)"
    by (auto simp: wf_stats_def)
  have ne: "item \<noteq> ''stats_timestamp''" "item \<noteq> ''last_changed''" "item \<noteq> ''last_author''"
    using assms(2) numkey_not_ts by (auto simp: numkey_def)
  have 1: "add_item stats item n = Inr (AList.update item (VInt (a + n)) stats)"
    using a by (simp add: add_item_def)
  have 2: "wf_stats (AList.update item (VInt (a + n)) stats)"
    using assms(1) ne unfolding wf_stats_def
    by (simp add: update_conv' distinct_update del: map_of_eq_Some_iff)
  show ?thesis using 1 2 a by (simp add: update_conv' num_of_def)
qed

lemma aggregate_num:
  assumes "wf_stats stats" "numkey item"
  shows "\<exists>stats'. aggregate stats item so = Inr stats' \<and> wf_stats stats' \<and>
           map_of stats' = (map_of stats)(item \<mapsto> VInt (num_of stats item + so_num so item))"
proof -
  have ne: "item \<noteq> ''stats_timestamp''" "item \<noteq> ''last_changed''" "item \<noteq> ''last_author''"
    using assms(2) numkey_not_ts by (auto simp: numkey_def)
  then have "aggregate stats item so = add_item stats item (so_num so item)"
    by (simp add: aggregate_def)
  then show ?thesis using add_item_num[OF assms] by simp
qed

lemma aggregate_last_author: "aggregate stats ''last_author'' so = Inr stats"
  by (simp add: aggregate_def)

lemma aggregate_last_changed:
  assumes "wf_stats stats"
  shows "\<exists>stats'. aggregate stats ''last_changed'' so = Inr stats' \<and> wf_stats stats' \<and>
           lc_of stats' = merge_last so (lc_of stats) \<and>
           (\<forall>k. k \<noteq> ''last_changed'' \<longrightarrow> k \<noteq> ''last_author'' \<longrightarrow> map_of stats' k = map_of stats k)"
proof -
  from assms obtain v w where v: "map_of stats ''last_changed'' = Some v"
     and w: "map_of stats ''last_author'' = Some w"
    by (auto simp: wf_stats_def)
  show ?thesis
  proof (cases "so_last_changed so")
    case None
    then show ?thesis using assms v by (simp add: aggregate_def merge_last_def)
  next
    case (Some t)
    show ?thesis
    proof (cases "\<not> truthy v \<or> date_less v t")
      case True
      let ?s' = "AList.update ''last_author'' (int_val (so_last_author so))
                   (AList.update ''last_changed'' (VDate t) stats)"
      have 1: "aggregate stats ''last_changed'' so = Inr ?s'"
        using Some True v by (simp add: aggregate_def)
      have 2: "wf_stats ?s'"
        using assms unfolding wf_stats_def numkey_def
        by (simp add: update_conv' distinct_update del: map_of_eq_Some_iff)
      have 3: "lc_of ?s' = merge_last so (lc_of stats)"
        using Some True v by (simp add: lc_of_def merge_last_def update_conv')
      show ?thesis using 1 2 3 by (simp add: update_conv')
    next
      case False
      then show ?thesis using assms Some v by (simp add: aggregate_def merge_last_def lc_of_def)
    qed
  qed
qed

lemma num_of_upd:
  "map_of stats' = (map_of stats)(item \<mapsto> VInt n) \<Longrightarrow>
   num_of stats' k = (if k = item then n else num_of stats k)"
  by (simp add: num_of_def)

lemma lc_of_upd:
  "map_of stats' = (map_of stats)(item \<mapsto> v) \<Longrightarrow> item \<noteq> ''last_changed'' \<Longrightarrow>
   item \<noteq> ''last_author'' \<Longrightarrow> lc_of stats' = lc_of stats"
  by (simp add: lc_of_def)

subsection \<open>One child: the loop over the keys\<close>

lemma aggregate_keys_effect:
  assumes "wf_stats stats" "distinct ks" "set ks \<subseteq> set SOURCE_KEYS"
  shows "\<exists>stats'. aggregate_keys ks so stats = Inr stats' \<and> wf_stats stats' \<and>
           (\<forall>k. numkey k \<longrightarrow>
              num_of stats' k = num_of stats k + (if k \<in> set ks then so_num so k else 0)) \<and>
           lc_of stats' = (if ''last_changed'' \<in> set ks then merge_last so (lc_of stats)
                           else lc_of stats)"
  using assms
proof (induction ks arbitrary: stats)
  case Nil
  then show ?case by simp
next
  case (Cons item ks)
  have rest: "distinct ks" "set ks \<subseteq> set SOURCE_KEYS" "item \<notin> set ks" "item \<in> set SOURCE_KEYS"
    using Cons.prems by auto
  consider (lc) "item = ''last_changed''" | (la) "item = ''last_author''" | (num) "numkey item"
    using rest(4) by (auto simp: numkey_def)
  then show ?case
  proof cases
    case lc
    from aggregate_last_changed[OF Cons.prems(1), of so]
    obtain s1 where s1: "aggregate stats ''last_changed'' so = Inr s1" "wf_stats s1"
        "lc_of s1 = merge_last so (lc_of stats)"
        "\<And>k. k \<noteq> ''last_changed'' \<Longrightarrow> k \<noteq> ''last_author'' \<Longrightarrow> map_of s1 k = map_of stats k"
      by blast
    from Cons.IH[OF s1(2) rest(1,2)]
    obtain s2 where s2: "aggregate_keys ks so s1 = Inr s2" "wf_stats s2"
        "\<And>k. numkey k \<Longrightarrow> num_of s2 k = num_of s1 k + (if k \<in> set ks then so_num so k else 0)"
        "lc_of s2 = (if ''last_changed'' \<in> set ks then merge_last so (lc_of s1) else lc_of s1)"
      by blast
    have n1: "\<And>k. numkey k \<Longrightarrow> num_of s1 k = num_of stats k"
      using s1(4) by (simp add: num_of_def numkey_def)
    show ?thesis
      using s1 s2 n1 rest(3) lc by (auto simp: numkey_def)
  next
    case la
    from Cons.IH[OF Cons.prems(1) rest(1,2)]
    show ?thesis using la rest(3) by (auto simp: aggregate_last_author numkey_def)
  next
    case num
    from aggregate_num[OF Cons.prems(1) num, of so]
    obtain s1 where s1: "aggregate stats item so = Inr s1" "wf_stats s1"
        "map_of s1 = (map_of stats)(item \<mapsto> VInt (num_of stats item + so_num so item))"
      by blast
    from Cons.IH[OF s1(2) rest(1,2)]
    obtain s2 where s2: "aggregate_keys ks so s1 = Inr s2" "wf_stats s2"
        "\<And>k. numkey k \<Longrightarrow> num_of s2 k = num_of s1 k + (if k \<in> set ks then so_num so k else 0)"
        "lc_of s2 = (if ''last_changed'' \<in> set ks then merge_last so (lc_of s1) else lc_of s1)"
      by blast
    have ne: "item \<noteq> ''last_changed''" "item \<noteq> ''last_author''"
      using num by (auto simp: numkey_def)
    have l1: "lc_of s1 = lc_of stats" using lc_of_upd[OF s1(3) ne] .
    have n1: "\<And>k. num_of s1 k = (if k = item then num_of stats item + so_num so item else num_of stats k)"
      using num_of_upd[OF s1(3)] by simp
    show ?thesis
      using s1(1) s2 n1 l1 rest(3) ne by auto
  qed
qed

subsection \<open>store\<close>

lemma store_eq:
  "store ld key v s = s\<lparr>s_data := Some ((ldata ld s)(key \<mapsto> conv key v))\<rparr>"
  by (cases "s_data s") (simp_all add: store_def loaded_def the_data_def conv_def ldata_def Let_def)

lemma ldata_Some [simp]: "ldata ld (s\<lparr>s_data := Some d\<rparr>) = d"
  by (simp add: ldata_def)

lemma the_data_Some [simp]: "the_data (s\<lparr>s_data := Some d\<rparr>) = d"
  by (simp add: the_data_def)

lemma store_items_eq:
  "stats \<noteq> [] \<Longrightarrow>
   store_items ld stats s =
     s\<lparr>s_data := Some (\<lambda>k. case map_of (rev stats) k of
                               None \<Rightarrow> ldata ld s k | Some v \<Rightarrow> Some (conv k v))\<rparr>"
proof (induction stats arbitrary: s)
  case Nil
  then show ?case by simp
next
  case (Cons a stats)
  obtain key v where a: "a = (key, v)" by (cases a)
  have step: "store_items ld (a # stats) s = store_items ld stats (store ld key v s)"
    by (simp add: store_items_def a)
  show ?case
  proof (cases "stats = []")
    case True
    then show ?thesis
      by (auto simp: step store_items_def store_eq a fun_eq_iff
               intro!: arg_cong[where f="\<lambda>x. s\<lparr>s_data := Some x\<rparr>"])
  next
    case False
    show ?thesis
      unfolding step Cons.IH[OF False] store_eq
      by (auto simp: a fun_eq_iff map_add_def split: option.splits
               intro!: arg_cong[where f="\<lambda>x. s\<lparr>s_data := Some x\<rparr>"])
  qed
qed

lemma map_of_rev_distinct: "distinct (map fst xs) \<Longrightarrow> map_of (rev xs) = map_of xs"
  by (metis distinct_rev map_of_inject_set rev_map set_rev)

lemma wf_stats_nonempty: "wf_stats stats \<Longrightarrow> stats \<noteq> []"
  by (auto simp: wf_stats_def)

lemma store_items_wf:
  assumes "wf_stats stats"
  shows "store_items ld stats s =
     s\<lparr>s_data := Some (\<lambda>k. case map_of stats k of
                               None \<Rightarrow> ldata ld s k | Some v \<Rightarrow> Some (conv k v))\<rparr>"
proof -
  have "distinct (map fst stats)" using assms by (simp add: wf_stats_def)
  then show ?thesis
    using store_items_eq[OF wf_stats_nonempty[OF assms]] by (simp add: map_of_rev_distinct)
qed

subsection \<open>calculate_source and the two loops\<close>

lemma calculate_source_effect:
  assumes "wf_stats stats"
  shows "\<exists>stats'. calculate_source kind so stats = Inr stats' \<and> wf_stats stats' \<and>
           (\<forall>k. numkey k \<longrightarrow>
              num_of stats' k =
                num_of stats k + (if k \<in> set BASIC_KEYS then 0 else object_contrib kind so k)) \<and>
           lc_of stats' = lc_of stats"
proof -
  consider (comp) "kind = ComponentStats"
    | (parent) "kind \<in> {CategoryStats, ProjectStats, ComponentListStats, GlobalStats}"
    | (other) "kind \<in> {LanguageStats, ProjectLanguageStats, CategoryLanguageStats}"
    by (cases kind) auto
  then show ?thesis
  proof cases
    case comp
    then show ?thesis using assms by (simp add: object_contrib_def)
  next
    case parent
    have cs: "calculate_source kind so stats =
        aggregate_keys [''source_chars'', ''source_words'', ''source_strings''] so stats"
      using parent by (cases kind) simp_all
    have d: "distinct [''source_chars'', ''source_words'', ''source_strings'']" by simp
    have sub: "set [''source_chars'', ''source_words'', ''source_strings''] \<subseteq> set SOURCE_KEYS"
      by (simp add: SOURCE_KEYS_def)
    from aggregate_keys_effect[OF assms d sub, of so]
    obtain s' where s': "aggregate_keys [''source_chars'', ''source_words'', ''source_strings''] so stats = Inr s'"
      "wf_stats s'"
      "\<And>k. numkey k \<Longrightarrow> num_of s' k = num_of stats k +
          (if k \<in> set [''source_chars'', ''source_words'', ''source_strings''] then so_num so k else 0)"
      "lc_of s' = lc_of stats"
      by auto
    have "num_of s' k = num_of stats k + (if k \<in> set BASIC_KEYS then 0 else object_contrib kind so k)"
      if "numkey k" for k
      using s'(3)[OF that] numkey_cases[OF that] source_keys_not_basic parent
      by (auto simp: object_contrib_def)
    then show ?thesis using cs s' by auto
  next
    case other
    have cs: "calculate_source kind so stats =
       (case add_item stats ''source_chars'' (so_num so ''all_chars'') of
          Inl e \<Rightarrow> Inl e
        | Inr s1 \<Rightarrow>
           (case add_item s1 ''source_words'' (so_num so ''all_words'') of
              Inl e \<Rightarrow> Inl e
            | Inr s2 \<Rightarrow> add_item s2 ''source_strings'' (so_num so ''all'')))"
      using other by (cases kind) simp_all
    from add_item_num[OF assms numkey_source(1)]
    obtain s1 where s1: "add_item stats ''source_chars'' (so_num so ''all_chars'') = Inr s1"
       "wf_stats s1"
       "map_of s1 = (map_of stats)(''source_chars'' \<mapsto> VInt (num_of stats ''source_chars'' + so_num so ''all_chars''))"
      by blast
    from add_item_num[OF s1(2) numkey_source(2)]
    obtain s2 where s2: "add_item s1 ''source_words'' (so_num so ''all_words'') = Inr s2"
       "wf_stats s2"
       "map_of s2 = (map_of s1)(''source_words'' \<mapsto> VInt (num_of s1 ''source_words'' + so_num so ''all_words''))"
      by blast
    from add_item_num[OF s2(2) numkey_source(3)]
    obtain s3 where s3: "add_item s2 ''source_strings'' (so_num so ''all'') = Inr s3"
       "wf_stats s3"
       "map_of s3 = (map_of s2)(''source_strings'' \<mapsto> VInt (num_of s2 ''source_strings'' + so_num so ''all''))"
      by blast
    have r: "calculate_source kind so stats = Inr s3"
      by (simp add: cs s1(1) s2(1) s3(1))
    have l: "lc_of s3 = lc_of stats"
      using lc_of_upd[OF s1(3)] lc_of_upd[OF s2(3)] lc_of_upd[OF s3(3)] by simp
    have n: "num_of s3 k = num_of stats k + (if k \<in> set BASIC_KEYS then 0 else object_contrib kind so k)"
      if "numkey k" for k
      using numkey_cases[OF that] source_keys_not_basic other
      by (auto simp: num_of_upd[OF s1(3)] num_of_upd[OF s2(3)] num_of_upd[OF s3(3)]
                     object_contrib_def source_of_def)
    show ?thesis using r s3(2) l n by auto
  qed
qed

lemma object_loop_effect:
  assumes "wf_stats stats"
  shows "\<exists>stats'. object_loop kind objs stats = Inr stats' \<and> wf_stats stats' \<and>
           (\<forall>k. numkey k \<longrightarrow>
              num_of stats' k = num_of stats k + sum_list (map (\<lambda>so. object_contrib kind so k) objs)) \<and>
           lc_of stats' = fold merge_last objs (lc_of stats)"
  using assms
proof (induction objs arbitrary: stats)
  case Nil
  then show ?case by simp
next
  case (Cons so objs)
  from aggregate_keys_effect[OF Cons.prems distinct_BASIC_KEYS BASIC_sub, of so]
  obtain s1 where s1: "aggregate_keys BASIC_KEYS so stats = Inr s1" "wf_stats s1"
     "\<And>k. numkey k \<Longrightarrow> num_of s1 k = num_of stats k + (if k \<in> set BASIC_KEYS then so_num so k else 0)"
     "lc_of s1 = merge_last so (lc_of stats)"
    using last_in_basic(1) by auto
  from calculate_source_effect[OF s1(2), of kind so]
  obtain s2 where s2: "calculate_source kind so s1 = Inr s2" "wf_stats s2"
     "\<And>k. numkey k \<Longrightarrow> num_of s2 k = num_of s1 k + (if k \<in> set BASIC_KEYS then 0 else object_contrib kind so k)"
     "lc_of s2 = lc_of s1"
    by blast
  from Cons.IH[OF s2(2)]
  obtain s3 where s3: "object_loop kind objs s2 = Inr s3" "wf_stats s3"
     "\<And>k. numkey k \<Longrightarrow> num_of s3 k = num_of s2 k + sum_list (map (\<lambda>so. object_contrib kind so k) objs)"
     "lc_of s3 = fold merge_last objs (lc_of s2)"
    by blast
  have "num_of s2 k = num_of stats k + object_contrib kind so k" if "numkey k" for k
    using s1(3)[OF that] s2(3)[OF that] by (auto simp: object_contrib_def)
  then show ?case
    using s1 s2 s3 by auto
qed

lemma category_loop_effect:
  assumes "wf_stats stats"
  shows "\<exists>stats'. category_loop cats stats = Inr stats' \<and> wf_stats stats' \<and>
           (\<forall>k. numkey k \<longrightarrow>
              num_of stats' k = num_of stats k + sum_list (map (\<lambda>so. so_num so k) cats)) \<and>
           lc_of stats' = fold merge_last cats (lc_of stats)"
  using assms
proof (induction cats arbitrary: stats)
  case Nil
  then show ?case by simp
next
  case (Cons so cats)
  have lc: "''last_changed'' \<in> set SOURCE_KEYS" using last_in_basic(1) BASIC_sub by blast
  from aggregate_keys_effect[OF Cons.prems distinct_SOURCE_KEYS subset_refl, of so]
  obtain s1 where s1: "aggregate_keys SOURCE_KEYS so stats = Inr s1" "wf_stats s1"
     "\<And>k. numkey k \<Longrightarrow> num_of s1 k = num_of stats k + (if k \<in> set SOURCE_KEYS then so_num so k else 0)"
     "lc_of s1 = merge_last so (lc_of stats)"
    using lc by auto
  from Cons.IH[OF s1(2)]
  obtain s3 where s3: "category_loop cats s1 = Inr s3" "wf_stats s3"
     "\<And>k. numkey k \<Longrightarrow> num_of s3 k = num_of s1 k + sum_list (map (\<lambda>so. so_num so k) cats)"
     "lc_of s3 = fold merge_last cats (lc_of s1)"
    by blast
  have "num_of s1 k = num_of stats k + so_num so k" if "numkey k" for k
    using s1(3)[OF that] that by (auto simp: numkey_def)
  then show ?case
    using s1 s3 by auto
qed

subsection \<open>The most recent child\<close>

lemma fold_merge_last_char:
  "case fold merge_last cs (VNone, VNone) of (a, b) \<Rightarrow>
     ((\<forall>c\<in>set cs. so_last_changed c = None) \<and> a = VNone \<and> b = VNone) \<or>
     (\<exists>c\<in>set cs. \<exists>t. so_last_changed c = Some t \<and> a = VDate t \<and>
         b = int_val (so_last_author c) \<and>
         (\<forall>c'\<in>set cs. \<forall>t'. so_last_changed c' = Some t' \<longrightarrow> t' \<le> t))"
proof (induction cs rule: rev_induct)
  case Nil
  then show ?case by simp
next
  case (snoc x xs)
  obtain a b where ab: "fold merge_last xs (VNone, VNone) = (a, b)" by fastforce
  have step: "fold merge_last (xs @ [x]) (VNone, VNone) = merge_last x (a, b)"
    using ab by simp
  from snoc have IH:
    "((\<forall>c\<in>set xs. so_last_changed c = None) \<and> a = VNone \<and> b = VNone) \<or>
     (\<exists>c\<in>set xs. \<exists>t. so_last_changed c = Some t \<and> a = VDate t \<and>
         b = int_val (so_last_author c) \<and>
         (\<forall>c'\<in>set xs. \<forall>t'. so_last_changed c' = Some t' \<longrightarrow> t' \<le> t))"
    by (simp add: ab)
  show ?case
  proof (cases "so_last_changed x")
    case None
    then have m: "merge_last x (a, b) = (a, b)" by (simp add: merge_last_def)
    show ?thesis unfolding step m using IH None by auto
  next
    case (Some t)
    from IH consider
      (none) "\<forall>c\<in>set xs. so_last_changed c = None" "a = VNone" "b = VNone"
      | (some) c u where "c \<in> set xs" "so_last_changed c = Some u" "a = VDate u"
          "b = int_val (so_last_author c)"
          "\<forall>c'\<in>set xs. \<forall>t'. so_last_changed c' = Some t' \<longrightarrow> t' \<le> u"
      by auto
    then show ?thesis
    proof cases
      case none
      then have m: "merge_last x (a, b) = (VDate t, int_val (so_last_author x))"
        using Some by (simp add: merge_last_def)
      show ?thesis unfolding step m using none Some by auto
    next
      case some
      show ?thesis
      proof (cases "u < t")
        case True
        then have m: "merge_last x (a, b) = (VDate t, int_val (so_last_author x))"
          using Some some(3) by (simp add: merge_last_def)
        have "\<forall>c'\<in>set (xs @ [x]). \<forall>t'. so_last_changed c' = Some t' \<longrightarrow> t' \<le> t"
          using some(5) True Some by fastforce
        then show ?thesis unfolding step m using Some by auto
      next
        case False
        then have m: "merge_last x (a, b) = (a, b)"
          using Some some(3) by (simp add: merge_last_def)
        have "\<forall>c'\<in>set (xs @ [x]). \<forall>t'. so_last_changed c' = Some t' \<longrightarrow> t' \<le> u"
          using some(5) False Some by fastforce
        then show ?thesis unfolding step m using some by auto
      qed
    qed
  qed
qed

subsection \<open>The record after the aggregation\<close>

lemma wf_stats_lookup:
  assumes "wf_stats st"
  shows "numkey k \<Longrightarrow> map_of st k = Some (VInt (num_of st k))"
    and "map_of st ''last_changed'' = Some (fst (lc_of st))"
    and "map_of st ''last_author'' = Some (snd (lc_of st))"
    and "map_of st ''stats_timestamp'' = Some (VInt 0)"
    and "fst (lc_of st) = VNone \<or> (\<exists>t. fst (lc_of st) = VDate t)"
  using assms by (auto simp: wf_stats_def num_of_def lc_of_def simp del: map_of_eq_Some_iff)

lemma aggregating_calculate_basic_result:
  "\<exists>st. wf_stats st \<and>
     (\<forall>key. numkey key \<longrightarrow>
        num_of st key = sum_list (map (\<lambda>so. object_contrib k so key) (e_object_set env)) +
                        sum_list (map (\<lambda>so. so_num so key) (category_set k env))) \<and>
     lc_of st = fold merge_last (e_object_set env @ category_set k env) (VNone, VNone) \<and>
     aggregating_calculate_basic k env s =
       Inr (prefetch_source k env
         (s\<lparr>s_data := Some (\<lambda>key. case map_of st key of
                                    None \<Rightarrow> ldata load s key | Some v \<Rightarrow> Some (conv key v))\<rparr>))"
proof -
  from object_loop_effect[OF wf_zero_stats, of k "e_object_set env"]
  obtain s1 where s1: "object_loop k (e_object_set env) (zero_stats SOURCE_KEYS) = Inr s1"
     "wf_stats s1"
     "\<And>key. numkey key \<Longrightarrow> num_of s1 key =
         sum_list (map (\<lambda>so. object_contrib k so key) (e_object_set env))"
     "lc_of s1 = fold merge_last (e_object_set env) (VNone, VNone)"
    by (auto simp: num_of_zero_stats lc_of_zero_stats)
  from category_loop_effect[OF s1(2), of "category_set k env"]
  obtain s2 where s2: "category_loop (category_set k env) s1 = Inr s2" "wf_stats s2"
     "\<And>key. numkey key \<Longrightarrow> num_of s2 key =
         num_of s1 key + sum_list (map (\<lambda>so. so_num so key) (category_set k env))"
     "lc_of s2 = fold merge_last (category_set k env) (lc_of s1)"
    by blast
  have "aggregating_calculate_basic k env s =
          Inr (prefetch_source k env (store_items load s2 s))"
    by (simp add: aggregating_calculate_basic_def s1(1) s2(1))
  then show ?thesis
    using s1 s2 store_items_wf[OF s2(2)] by (intro exI[of _ s2]) auto
qed

lemma conv_VInt [simp]: "conv key (VInt n) = VInt n"
  by (simp add: conv_def)

lemma conv_VFloat [simp]: "conv key (VFloat r) = VFloat r"
  by (simp add: conv_def)

lemma conv_VDate [simp]: "conv key (VDate r) = VDate r"
  by (simp add: conv_def)

lemma conv_last [simp]: "conv ''last_changed'' v = v" "conv ''last_author'' v = v"
  by (simp_all add: conv_def startswith_def)

lemma prefetch_source_data:
  "prefetch_source k env (s\<lparr>s_data := Some m\<rparr>) =
     s\<lparr>s_data := Some (\<lambda>key.
        if k = ComponentStats \<and> key \<in> {''source_chars'', ''source_words'', ''source_strings''}
        then Some (VInt (case e_source_translation env of
                           None \<Rightarrow> 0 | Some so \<Rightarrow> so_num so (source_of key)))
        else m key)\<rparr>"
  by (cases k; cases "e_source_translation env")
     (auto simp: store_eq source_of_def fun_eq_iff
           intro!: arg_cong[where f="\<lambda>x. s\<lparr>s_data := Some x\<rparr>"])

lemma agg_calculate_basic_result:
  "\<exists>st. wf_stats st \<and>
     (\<forall>key. numkey key \<longrightarrow>
        num_of st key = sum_list (map (\<lambda>so. object_contrib k so key) (e_object_set env)) +
                        sum_list (map (\<lambda>so. so_num so key) (category_set k env))) \<and>
     lc_of st = fold merge_last (e_object_set env @ category_set k env) (VNone, VNone) \<and>
     agg_calculate_basic k env s =
       Inr (s\<lparr>s_data := Some (\<lambda>key.
          if key = ''languages'' \<and> k \<in> {ProjectLanguageStats, CategoryLanguageStats}
          then Some (VInt 1)
          else if key = ''languages'' \<and> k \<in> {ProjectStats, GlobalStats}
          then Some (VInt (e_languages_count env))
          else if k = ComponentStats \<and>
                  key \<in> {''source_chars'', ''source_words'', ''source_strings''}
          then Some (VInt (case e_source_translation env of
                             None \<Rightarrow> 0 | Some so \<Rightarrow> so_num so (source_of key)))
          else (case map_of st key of
                  None \<Rightarrow> ldata load s key | Some v \<Rightarrow> Some (conv key v)))\<rparr>)"
proof -
  from aggregating_calculate_basic_result[of k env s]
  obtain st where st: "wf_stats st"
     "\<forall>key. numkey key \<longrightarrow>
        num_of st key = sum_list (map (\<lambda>so. object_contrib k so key) (e_object_set env)) +
                        sum_list (map (\<lambda>so. so_num so key) (category_set k env))"
     "lc_of st = fold merge_last (e_object_set env @ category_set k env) (VNone, VNone)"
     "aggregating_calculate_basic k env s =
       Inr (prefetch_source k env
         (s\<lparr>s_data := Some (\<lambda>key. case map_of st key of
                                    None \<Rightarrow> ldata load s key | Some v \<Rightarrow> Some (conv key v))\<rparr>))"
    by blast
  have "agg_calculate_basic k env s = Inr (s\<lparr>s_data := Some (\<lambda>key.
          if key = ''languages'' \<and> k \<in> {ProjectLanguageStats, CategoryLanguageStats}
          then Some (VInt 1)
          else if key = ''languages'' \<and> k \<in> {ProjectStats, GlobalStats}
          then Some (VInt (e_languages_count env))
          else if k = ComponentStats \<and>
                  key \<in> {''source_chars'', ''source_words'', ''source_strings''}
          then Some (VInt (case e_source_translation env of
                             None \<Rightarrow> 0 | Some so \<Rightarrow> so_num so (source_of key)))
          else (case map_of st key of
                  None \<Rightarrow> ldata load s key | Some v \<Rightarrow> Some (conv key v)))\<rparr>)"
    unfolding agg_calculate_basic.simps st(4) prefetch_source_data
    by (cases k)
       (auto simp: store_eq fun_eq_iff intro!: arg_cong[where f="\<lambda>x. s\<lparr>s_data := Some x\<rparr>"])
  then show ?thesis using st(1,2,3) by blast
qed

lemma basic_numkey:
  "key \<in> set BASIC_KEYS \<Longrightarrow> key \<noteq> ''last_changed'' \<Longrightarrow> key \<noteq> ''last_author'' \<Longrightarrow> numkey key"
  using BASIC_sub by (auto simp: numkey_def)

section \<open>Aggregation of a composite node\<close>

lemma agg_calculate_basic_keys:
  "\<exists>s1.
    agg_calculate_basic k env s = Inr s1 \<and>
    (\<forall>key. key \<in> set BASIC_KEYS \<longrightarrow> key \<notin> {''languages'', ''last_changed'', ''last_author''} \<longrightarrow>
        the_data s1 key =
          Some (VInt (sum_list (map (\<lambda>c. so_num c key) (e_object_set env @ category_set k env))))) \<and>
    the_data s1 ''last_changed'' =
        Some (fst (fold merge_last (e_object_set env @ category_set k env) (VNone, VNone))) \<and>
    the_data s1 ''last_author'' =
        Some (snd (fold merge_last (e_object_set env @ category_set k env) (VNone, VNone))) \<and>
    the_data s1 ''stats_timestamp'' = Some (VInt 0) \<and>
    s_data s1 \<noteq> None"
proof -
  from agg_calculate_basic_result[of k env s]
  obtain st s1 where st: "wf_stats st"
     "\<And>key. numkey key \<Longrightarrow>
        num_of st key = sum_list (map (\<lambda>so. object_contrib k so key) (e_object_set env)) +
                        sum_list (map (\<lambda>so. so_num so key) (category_set k env))"
     "lc_of st = fold merge_last (e_object_set env @ category_set k env) (VNone, VNone)"
     "agg_calculate_basic k env s = Inr s1"
     "s1 = s\<lparr>s_data := Some (\<lambda>key.
          if key = ''languages'' \<and> k \<in> {ProjectLanguageStats, CategoryLanguageStats}
          then Some (VInt 1)
          else if key = ''languages'' \<and> k \<in> {ProjectStats, GlobalStats}
          then Some (VInt (e_languages_count env))
          else if k = ComponentStats \<and>
                  key \<in> {''source_chars'', ''source_words'', ''source_strings''}
          then Some (VInt (case e_source_translation env of
                             None \<Rightarrow> 0 | Some so \<Rightarrow> so_num so (source_of key)))
          else (case map_of st key of
                  None \<Rightarrow> ldata load s key | Some v \<Rightarrow> Some (conv key v)))\<rparr>"
    by blast
  have a: "the_data s1 key =
          Some (VInt (sum_list (map (\<lambda>c. so_num c key) (e_object_set env @ category_set k env))))"
    if "key \<in> set BASIC_KEYS" "key \<notin> {''languages'', ''last_changed'', ''last_author''}" for key
  proof -
    have nk: "numkey key" using that basic_numkey by auto
    have ns: "key \<notin> {''source_chars'', ''source_words'', ''source_strings''}"
      using that(1) source_keys_not_basic by auto
    have "the_data s1 key = Some (VInt (num_of st key))"
      using that(2) ns wf_stats_lookup(1)[OF st(1) nk] by (simp add: st(5))
    moreover have "object_contrib k so key = so_num so key" for so
      using that(1) by (simp add: object_contrib_def)
    ultimately show ?thesis using st(2)[OF nk] by simp
  qed
  have b: "the_data s1 ''last_changed'' =
        Some (fst (fold merge_last (e_object_set env @ category_set k env) (VNone, VNone)))"
    using wf_stats_lookup(2)[OF st(1)] by (simp add: st(5) st(3))
  have c: "the_data s1 ''last_author'' =
        Some (snd (fold merge_last (e_object_set env @ category_set k env) (VNone, VNone)))"
    using wf_stats_lookup(3)[OF st(1)] by (simp add: st(5) st(3))
  have d: "the_data s1 ''stats_timestamp'' = Some (VInt 0)"
    using wf_stats_lookup(4)[OF st(1)] by (simp add: st(5) conv_def)
  have e: "s_data s1 \<noteq> None" by (simp add: st(5))
  show ?thesis using st(4) a b c d e by (intro exI[of _ s1]) simp
qed

lemma node_load_eq [simp]:
  "node_load (Aggregating k env) = load" "node_load (Translation tenv) = load"
  "node_load DummyTranslation = (\<lambda>s. Map.empty)" "node_load (Ghost base) = (\<lambda>s. Map.empty)"
  by (rule ext, simp)+

lemma the_data_store:
  "the_data (store ld key v s) k = (if k = key then Some (conv key v) else ldata ld s k)"
  by (simp add: store_eq)

lemma ldata_loaded: "s_data s \<noteq> None \<Longrightarrow> ldata ld s = the_data s"
  by (auto simp: ldata_def the_data_def)

text \<open>
  C1 (amended). After the recomputation of a composite node, every key of \<open>BASIC_KEYS\<close>
  other than \<open>languages\<close>, \<open>last_changed\<close> and \<open>last_author\<close> holds the sum of that key over
  the children of \<open>object_set\<close> and \<open>category_set\<close>; \<open>last_changed\<close> and \<open>last_author\<close> are
  those of a child with the most recent \<open>last_changed\<close> (\<open>None\<close> when no child has one);
  \<open>stats_timestamp\<close> is 0 after \<open>_calculate_basic\<close> and the node's own reading of the clock
  after \<open>calculate_basic\<close>, whatever the \<open>stats_timestamp\<close> of the children.
\<close>

theorem C1_composite_aggregation:
  "\<exists>s1 s2.
     calculate_basic_impl (Aggregating k env) s = Inr s1 \<and>
     calculate_basic (Aggregating k env) now s = (Inr (), s2) \<and>
     (\<forall>key\<in>set BASIC_KEYS. key \<notin> {''languages'', ''last_changed'', ''last_author''} \<longrightarrow>
        the_data s2 key =
          Some (VInt (sum_list (map (\<lambda>c. so_num c key) (e_object_set env @ category_set k env))))) \<and>
     (((\<forall>c\<in>set (e_object_set env @ category_set k env). so_last_changed c = None) \<and>
        the_data s2 ''last_changed'' = Some VNone \<and> the_data s2 ''last_author'' = Some VNone) \<or>
      (\<exists>c\<in>set (e_object_set env @ category_set k env). \<exists>t.
         so_last_changed c = Some t \<and>
         the_data s2 ''last_changed'' = Some (VDate t) \<and>
         the_data s2 ''last_author'' = Some (int_val (so_last_author c)) \<and>
         (\<forall>c'\<in>set (e_object_set env @ category_set k env). \<forall>t'.
            so_last_changed c' = Some t' \<longrightarrow> t' \<le> t))) \<and>
     the_data s1 ''stats_timestamp'' = Some (VInt 0) \<and>
     the_data s2 ''stats_timestamp'' = Some (VFloat now)"
proof -
  let ?cs = "e_object_set env @ category_set k env"
  obtain s1 where s1:
    "agg_calculate_basic k env s = Inr s1"
    "\<And>key. key \<in> set BASIC_KEYS \<Longrightarrow> key \<notin> {''languages'', ''last_changed'', ''last_author''} \<Longrightarrow>
        the_data s1 key = Some (VInt (sum_list (map (\<lambda>c. so_num c key) ?cs)))"
    "the_data s1 ''last_changed'' = Some (fst (fold merge_last ?cs (VNone, VNone)))"
    "the_data s1 ''last_author'' = Some (snd (fold merge_last ?cs (VNone, VNone)))"
    "the_data s1 ''stats_timestamp'' = Some (VInt 0)"
    "s_data s1 \<noteq> None"
    using agg_calculate_basic_keys[of k env s] by blast
  define s2 where "s2 = store load ''stats_timestamp'' (VFloat now) s1"
  have r1: "calculate_basic_impl (Aggregating k env) s = Inr s1"
    by (simp add: s1(1) del: agg_calculate_basic.simps)
  have r2: "calculate_basic (Aggregating k env) now s = (Inr (), s2)"
    by (simp add: calculate_basic_def s2_def s1(1) del: agg_calculate_basic.simps)
  have d2: "the_data s2 key = (if key = ''stats_timestamp'' then Some (VFloat now) else the_data s1 key)"
    for key
    by (simp add: s2_def the_data_store ldata_loaded[OF s1(6)])
  have ts_nb: "''stats_timestamp'' \<notin> set BASIC_KEYS" using ts_notin BASIC_sub by blast
  have sums: "\<forall>key\<in>set BASIC_KEYS. key \<notin> {''languages'', ''last_changed'', ''last_author''} \<longrightarrow>
        the_data s2 key = Some (VInt (sum_list (map (\<lambda>c. so_num c key) ?cs)))"
    using s1(2) ts_nb by (auto simp: d2)
  obtain a b where ab: "fold merge_last ?cs (VNone, VNone) = (a, b)" by fastforce
  have lc: "the_data s2 ''last_changed'' = Some a" "the_data s2 ''last_author'' = Some b"
    using s1(3,4)[unfolded ab] by (simp_all add: d2)
  from fold_merge_last_char[of ?cs]
  have "((\<forall>c\<in>set ?cs. so_last_changed c = None) \<and> a = VNone \<and> b = VNone) \<or>
     (\<exists>c\<in>set ?cs. \<exists>t. so_last_changed c = Some t \<and> a = VDate t \<and>
         b = int_val (so_last_author c) \<and>
         (\<forall>c'\<in>set ?cs. \<forall>t'. so_last_changed c' = Some t' \<longrightarrow> t' \<le> t))"
    unfolding ab by simp
  then have last: "((\<forall>c\<in>set ?cs. so_last_changed c = None) \<and>
        the_data s2 ''last_changed'' = Some VNone \<and> the_data s2 ''last_author'' = Some VNone) \<or>
      (\<exists>c\<in>set ?cs. \<exists>t.
         so_last_changed c = Some t \<and>
         the_data s2 ''last_changed'' = Some (VDate t) \<and>
         the_data s2 ''last_author'' = Some (int_val (so_last_author c)) \<and>
         (\<forall>c'\<in>set ?cs. \<forall>t'. so_last_changed c' = Some t' \<longrightarrow> t' \<le> t))"
    unfolding lc by blast
  have t2: "the_data s2 ''stats_timestamp'' = Some (VFloat now)" by (simp add: d2)
  show ?thesis
    by (intro exI[of _ s1] exI[of _ s2] conjI r1 r2 sums last s1(5) t2)
qed

theorem C1_composite_aggregation_witness:
  "the_data (snd (calculate_basic (Aggregating ProjectStats example_env) 5 fresh)) ''translated''
     = Some (VInt 10) \<and>
   the_data (snd (calculate_basic (Aggregating ProjectStats example_env) 5 fresh)) ''last_changed''
     = Some (VDate 20) \<and>
   the_data (snd (calculate_basic (Aggregating ProjectStats example_env) 5 fresh)) ''last_author''
     = Some (VInt 2)"
proof -
  have k: "''translated'' \<in> set BASIC_KEYS" by (simp add: BASIC_KEYS_def BASICS_def)
  from C1_composite_aggregation[of ProjectStats example_env fresh 5]
  obtain s1 s2 where
    r: "calculate_basic (Aggregating ProjectStats example_env) 5 fresh = (Inr (), s2)" and
    sums: "\<forall>key\<in>set BASIC_KEYS. key \<notin> {''languages'', ''last_changed'', ''last_author''} \<longrightarrow>
        the_data s2 key = Some (VInt (sum_list (map (\<lambda>c. so_num c key)
           (e_object_set example_env @ category_set ProjectStats example_env))))" and
    last: "((\<forall>c\<in>set (e_object_set example_env @ category_set ProjectStats example_env).
          so_last_changed c = None) \<and>
        the_data s2 ''last_changed'' = Some VNone \<and> the_data s2 ''last_author'' = Some VNone) \<or>
      (\<exists>c\<in>set (e_object_set example_env @ category_set ProjectStats example_env). \<exists>t.
         so_last_changed c = Some t \<and>
         the_data s2 ''last_changed'' = Some (VDate t) \<and>
         the_data s2 ''last_author'' = Some (int_val (so_last_author c)) \<and>
         (\<forall>c'\<in>set (e_object_set example_env @ category_set ProjectStats example_env). \<forall>t'.
            so_last_changed c' = Some t' \<longrightarrow> t' \<le> t))"
    by (elim exE conjE) (rule that, assumption+)
  have 1: "the_data s2 ''translated'' = Some (VInt 10)"
    using sums k by (simp add: example_env_def child_a_def child_b_def)
  have 2: "the_data s2 ''last_changed'' = Some (VDate 20) \<and> the_data s2 ''last_author'' = Some (VInt 2)"
    using last by (auto simp: example_env_def child_a_def child_b_def int_val_def)
  show ?thesis using 1 2 by (simp add: r)
qed

theorem C1_stats_timestamp_counterexample:
  "the_data (snd (calculate_basic (Aggregating ProjectStats example_env) 5 fresh)) ''stats_timestamp''
     \<noteq> Some (VFloat (max 5 (max (so_stats_timestamp child_a) (so_stats_timestamp child_b))))"
proof -
  obtain s1 where s1: "agg_calculate_basic ProjectStats example_env fresh = Inr s1"
    "s_data s1 \<noteq> None"
    using agg_calculate_basic_keys[of ProjectStats example_env fresh] by blast
  have "calculate_basic (Aggregating ProjectStats example_env) 5 fresh =
          (Inr (), store load ''stats_timestamp'' (VFloat 5) s1)"
    by (simp add: calculate_basic_def s1(1) del: agg_calculate_basic.simps)
  then show ?thesis
    by (simp add: the_data_store child_a_def child_b_def)
qed

section \<open>The record of a composite node after \<open>calculate_basic\<close>\<close>

lemma calculate_basic_agg:
  "\<exists>st. wf_stats st \<and>
     (\<forall>key. numkey key \<longrightarrow>
        num_of st key = sum_list (map (\<lambda>so. object_contrib k so key) (e_object_set env)) +
                        sum_list (map (\<lambda>so. so_num so key) (category_set k env))) \<and>
     calculate_basic (Aggregating k env) now s =
       (Inr (), s\<lparr>s_data := Some (\<lambda>key.
          if key = ''stats_timestamp'' then Some (VFloat now)
          else if key = ''languages'' \<and> k \<in> {ProjectLanguageStats, CategoryLanguageStats}
          then Some (VInt 1)
          else if key = ''languages'' \<and> k \<in> {ProjectStats, GlobalStats}
          then Some (VInt (e_languages_count env))
          else if k = ComponentStats \<and>
                  key \<in> {''source_chars'', ''source_words'', ''source_strings''}
          then Some (VInt (case e_source_translation env of
                             None \<Rightarrow> 0 | Some so \<Rightarrow> so_num so (source_of key)))
          else (case map_of st key of
                  None \<Rightarrow> ldata load s key | Some v \<Rightarrow> Some (conv key v)))\<rparr>)"
proof -
  from agg_calculate_basic_result[of k env s]
  obtain st m where st: "wf_stats st"
     "\<forall>key. numkey key \<longrightarrow>
        num_of st key = sum_list (map (\<lambda>so. object_contrib k so key) (e_object_set env)) +
                        sum_list (map (\<lambda>so. so_num so key) (category_set k env))"
     "agg_calculate_basic k env s = Inr (s\<lparr>s_data := Some m\<rparr>)"
     "m = (\<lambda>key.
          if key = ''languages'' \<and> k \<in> {ProjectLanguageStats, CategoryLanguageStats}
          then Some (VInt 1)
          else if key = ''languages'' \<and> k \<in> {ProjectStats, GlobalStats}
          then Some (VInt (e_languages_count env))
          else if k = ComponentStats \<and>
                  key \<in> {''source_chars'', ''source_words'', ''source_strings''}
          then Some (VInt (case e_source_translation env of
                             None \<Rightarrow> 0 | Some so \<Rightarrow> so_num so (source_of key)))
          else (case map_of st key of
                  None \<Rightarrow> ldata load s key | Some v \<Rightarrow> Some (conv key v)))"
    by (elim exE conjE) (rule that, assumption+, rule refl)
  have "calculate_basic (Aggregating k env) now s =
          (Inr (), s\<lparr>s_data := Some (m(''stats_timestamp'' \<mapsto> VFloat now))\<rparr>)"
    by (simp add: calculate_basic_def st(3) store_eq del: agg_calculate_basic.simps)
  moreover have "m(''stats_timestamp'' \<mapsto> VFloat now) =
       (\<lambda>key. if key = ''stats_timestamp'' then Some (VFloat now) else m key)"
    by (rule ext) simp
  ultimately have "calculate_basic (Aggregating k env) now s =
       (Inr (), s\<lparr>s_data := Some (\<lambda>key. if key = ''stats_timestamp'' then Some (VFloat now) else m key)\<rparr>)"
    by simp
  then show ?thesis
    unfolding st(4) using st(1,2) by (intro exI[of _ st] conjI) assumption+
qed

lemma calculate_basic_agg_keys:
  "\<exists>s2. calculate_basic (Aggregating k env) now s = (Inr (), s2) \<and>
     (\<forall>key. numkey key \<longrightarrow> key \<noteq> ''languages'' \<longrightarrow>
        the_data s2 key =
          (if k = ComponentStats \<and> key \<in> {''source_chars'', ''source_words'', ''source_strings''}
           then Some (VInt (case e_source_translation env of
                              None \<Rightarrow> 0 | Some so \<Rightarrow> so_num so (source_of key)))
           else Some (VInt (sum_list (map (\<lambda>so. object_contrib k so key) (e_object_set env)) +
                            sum_list (map (\<lambda>so. so_num so key) (category_set k env)))))) \<and>
     the_data s2 ''languages'' =
        (if k \<in> {ProjectLanguageStats, CategoryLanguageStats} then Some (VInt 1)
         else if k \<in> {ProjectStats, GlobalStats} then Some (VInt (e_languages_count env))
         else Some (VInt (sum_list (map (\<lambda>so. so_num so ''languages'')
                                     (e_object_set env @ category_set k env)))))"
proof -
  from calculate_basic_agg[of k env now s]
  obtain st s2 where st: "wf_stats st"
     "\<forall>key. numkey key \<longrightarrow>
        num_of st key = sum_list (map (\<lambda>so. object_contrib k so key) (e_object_set env)) +
                        sum_list (map (\<lambda>so. so_num so key) (category_set k env))"
     "calculate_basic (Aggregating k env) now s = (Inr (), s2)"
     "s2 = s\<lparr>s_data := Some (\<lambda>key.
          if key = ''stats_timestamp'' then Some (VFloat now)
          else if key = ''languages'' \<and> k \<in> {ProjectLanguageStats, CategoryLanguageStats}
          then Some (VInt 1)
          else if key = ''languages'' \<and> k \<in> {ProjectStats, GlobalStats}
          then Some (VInt (e_languages_count env))
          else if k = ComponentStats \<and>
                  key \<in> {''source_chars'', ''source_words'', ''source_strings''}
          then Some (VInt (case e_source_translation env of
                             None \<Rightarrow> 0 | Some so \<Rightarrow> so_num so (source_of key)))
          else (case map_of st key of
                  None \<Rightarrow> ldata load s key | Some v \<Rightarrow> Some (conv key v)))\<rparr>"
    by (elim exE conjE) (rule that, assumption+, rule refl)
  have a: "the_data s2 key =
          (if k = ComponentStats \<and> key \<in> {''source_chars'', ''source_words'', ''source_strings''}
           then Some (VInt (case e_source_translation env of
                              None \<Rightarrow> 0 | Some so \<Rightarrow> so_num so (source_of key)))
           else Some (VInt (sum_list (map (\<lambda>so. object_contrib k so key) (e_object_set env)) +
                            sum_list (map (\<lambda>so. so_num so key) (category_set k env)))))"
    if "numkey key" "key \<noteq> ''languages''" for key
  proof -
    have m: "map_of st key = Some (VInt (sum_list (map (\<lambda>so. object_contrib k so key) (e_object_set env)) +
                            sum_list (map (\<lambda>so. so_num so key) (category_set k env))))"
      using wf_stats_lookup(1)[OF st(1) that(1)] st(2) that(1) by simp
    consider (a) "k = ComponentStats" "key \<in> {''source_chars'', ''source_words'', ''source_strings''}"
      | (b) "k \<noteq> ComponentStats"
      | (c) "key \<noteq> ''source_chars''" "key \<noteq> ''source_words''" "key \<noteq> ''source_strings''"
      by auto
    then show ?thesis
    proof cases
      case a
      then show ?thesis using that(2) numkey_not_ts[OF that(1)] by (simp add: st(4))
    next
      case b
      then show ?thesis using that(2) numkey_not_ts[OF that(1)] m by (simp add: st(4))
    next
      case c
      then show ?thesis using that(2) numkey_not_ts[OF that(1)] m by (simp add: st(4))
    qed
  qed
  have nl: "numkey ''languages''" using last_in_basic(3) by (simp add: basic_numkey)
  have oc: "object_contrib k so ''languages'' = so_num so ''languages''" for so
    using last_in_basic(3) by (simp add: object_contrib_def)
  have b: "the_data s2 ''languages'' =
        (if k \<in> {ProjectLanguageStats, CategoryLanguageStats} then Some (VInt 1)
         else if k \<in> {ProjectStats, GlobalStats} then Some (VInt (e_languages_count env))
         else Some (VInt (sum_list (map (\<lambda>so. so_num so ''languages'')
                                     (e_object_set env @ category_set k env)))))"
    using wf_stats_lookup(1)[OF st(1) nl] st(2) nl
    by (simp add: st(4) oc)
  show ?thesis
    using st(3) a b by (intro exI[of _ s2] conjI allI impI) assumption+
qed

text \<open>
  C5. After the recomputation of a component, \<open>source_strings\<close>, \<open>source_words\<close> and
  \<open>source_chars\<close> are the \<open>all\<close>, \<open>all_words\<close> and \<open>all_chars\<close> of its source translation
  (0 when it has none), not a sum over its translations; for a category, project,
  component list and the global node they are the sums of the children's \<open>source_*\<close>.
\<close>

theorem C5_source_keys:
  "(\<exists>s2. calculate_basic (Aggregating ComponentStats env) now s = (Inr (), s2) \<and>
      the_data s2 ''source_strings'' =
        Some (VInt (case e_source_translation env of None \<Rightarrow> 0 | Some st \<Rightarrow> so_num st ''all'')) \<and>
      the_data s2 ''source_words'' =
        Some (VInt (case e_source_translation env of None \<Rightarrow> 0 | Some st \<Rightarrow> so_num st ''all_words'')) \<and>
      the_data s2 ''source_chars'' =
        Some (VInt (case e_source_translation env of None \<Rightarrow> 0 | Some st \<Rightarrow> so_num st ''all_chars''))) \<and>
   (\<forall>k\<in>{CategoryStats, ProjectStats, GlobalStats, ComponentListStats}.
      \<exists>s2. calculate_basic (Aggregating k env) now s = (Inr (), s2) \<and>
        (\<forall>key\<in>{''source_strings'', ''source_words'', ''source_chars''}.
           the_data s2 key =
             Some (VInt (sum_list (map (\<lambda>c. so_num c key)
                                     (e_object_set env @ category_set k env))))))"
proof (intro conjI ballI)
  from calculate_basic_agg_keys[of ComponentStats env now s]
  obtain s2 where s2: "calculate_basic (Aggregating ComponentStats env) now s = (Inr (), s2)"
    "\<forall>key. numkey key \<longrightarrow> key \<noteq> ''languages'' \<longrightarrow>
        the_data s2 key =
          (if ComponentStats = ComponentStats \<and> key \<in> {''source_chars'', ''source_words'', ''source_strings''}
           then Some (VInt (case e_source_translation env of
                              None \<Rightarrow> 0 | Some so \<Rightarrow> so_num so (source_of key)))
           else Some (VInt (sum_list (map (\<lambda>so. object_contrib ComponentStats so key) (e_object_set env)) +
                            sum_list (map (\<lambda>so. so_num so key) (category_set ComponentStats env)))))"
    by (elim exE conjE) (rule that, assumption+)
  have "the_data s2 ''source_strings'' =
        Some (VInt (case e_source_translation env of None \<Rightarrow> 0 | Some st \<Rightarrow> so_num st ''all''))"
    using s2(2)[rule_format, OF numkey_source(3)] by (simp add: source_of_def split: option.splits)
  moreover have "the_data s2 ''source_words'' =
        Some (VInt (case e_source_translation env of None \<Rightarrow> 0 | Some st \<Rightarrow> so_num st ''all_words''))"
    using s2(2)[rule_format, OF numkey_source(2)] by (simp add: source_of_def split: option.splits)
  moreover have "the_data s2 ''source_chars'' =
        Some (VInt (case e_source_translation env of None \<Rightarrow> 0 | Some st \<Rightarrow> so_num st ''all_chars''))"
    using s2(2)[rule_format, OF numkey_source(1)] by (simp add: source_of_def split: option.splits)
  ultimately show "\<exists>s2. calculate_basic (Aggregating ComponentStats env) now s = (Inr (), s2) \<and>
      the_data s2 ''source_strings'' =
        Some (VInt (case e_source_translation env of None \<Rightarrow> 0 | Some st \<Rightarrow> so_num st ''all'')) \<and>
      the_data s2 ''source_words'' =
        Some (VInt (case e_source_translation env of None \<Rightarrow> 0 | Some st \<Rightarrow> so_num st ''all_words'')) \<and>
      the_data s2 ''source_chars'' =
        Some (VInt (case e_source_translation env of None \<Rightarrow> 0 | Some st \<Rightarrow> so_num st ''all_chars''))"
    using s2(1) by (intro exI[of _ s2] conjI) assumption+
next
  fix k assume k: "k \<in> {CategoryStats, ProjectStats, GlobalStats, ComponentListStats}"
  from calculate_basic_agg_keys[of k env now s]
  obtain s2 where s2: "calculate_basic (Aggregating k env) now s = (Inr (), s2)"
    "\<forall>key. numkey key \<longrightarrow> key \<noteq> ''languages'' \<longrightarrow>
        the_data s2 key =
          (if k = ComponentStats \<and> key \<in> {''source_chars'', ''source_words'', ''source_strings''}
           then Some (VInt (case e_source_translation env of
                              None \<Rightarrow> 0 | Some so \<Rightarrow> so_num so (source_of key)))
           else Some (VInt (sum_list (map (\<lambda>so. object_contrib k so key) (e_object_set env)) +
                            sum_list (map (\<lambda>so. so_num so key) (category_set k env)))))"
    by (elim exE conjE) (rule that, assumption+)
  have nc: "k \<noteq> ComponentStats" using k by auto
  have oc: "object_contrib k so key = so_num so key" for so key
    using k by (auto simp: object_contrib_def)
  have "the_data s2 key =
             Some (VInt (sum_list (map (\<lambda>c. so_num c key) (e_object_set env @ category_set k env))))"
    if "key \<in> {''source_strings'', ''source_words'', ''source_chars''}" for key
  proof -
    have "numkey key" "key \<noteq> ''languages''" using that numkey_source by auto
    then show ?thesis using s2(2) nc by (simp add: oc)
  qed
  then show "\<exists>s2. calculate_basic (Aggregating k env) now s = (Inr (), s2) \<and>
        (\<forall>key\<in>{''source_strings'', ''source_words'', ''source_chars''}.
           the_data s2 key =
             Some (VInt (sum_list (map (\<lambda>c. so_num c key)
                                     (e_object_set env @ category_set k env)))))"
    using s2(1) by (intro exI[of _ s2] conjI ballI) assumption+
qed

theorem C5_source_keys_witness:
  "the_data (snd (calculate_basic (Aggregating ComponentStats example_env) 5 fresh)) ''source_strings''
     = Some (VInt 3) \<and>
   the_data (snd (calculate_basic (Aggregating ProjectStats example_env) 5 fresh)) ''source_strings''
     = Some (VInt 10)"
proof -
  note t = C5_source_keys[of example_env 5 fresh]
  from t[THEN conjunct1]
  obtain s2 where a: "calculate_basic (Aggregating ComponentStats example_env) 5 fresh = (Inr (), s2)"
    "the_data s2 ''source_strings'' =
        Some (VInt (case e_source_translation example_env of None \<Rightarrow> 0 | Some st \<Rightarrow> so_num st ''all''))"
    by (elim exE conjE) (rule that, assumption+)
  have "ProjectStats \<in> {CategoryStats, ProjectStats, GlobalStats, ComponentListStats}" by simp
  from bspec[OF t[THEN conjunct2] this]
  obtain s3 where b: "calculate_basic (Aggregating ProjectStats example_env) 5 fresh = (Inr (), s3)"
    "\<forall>key\<in>{''source_strings'', ''source_words'', ''source_chars''}.
           the_data s3 key =
             Some (VInt (sum_list (map (\<lambda>c. so_num c key)
                (e_object_set example_env @ category_set ProjectStats example_env))))"
    by (elim exE conjE) (rule that, assumption+)
  have 1: "the_data s2 ''source_strings'' = Some (VInt 3)"
    using a(2) by (simp add: example_env_def child_a_def)
  have 2: "the_data s3 ''source_strings'' = Some (VInt 10)"
    using b(2) by (simp add: example_env_def child_a_def child_b_def)
  show ?thesis using 1 2 by (simp add: a(1) b(1))
qed

text \<open>
  C6. After the recomputation of a project and of the global node, \<open>languages\<close> is the
  number of distinct languages among the descendants, whatever the \<open>languages\<close> values of
  the children are: it is not their sum.
\<close>

theorem C6_languages_distinct_count:
  "\<forall>k\<in>{ProjectStats, GlobalStats}.
     \<exists>s2. calculate_basic
            (Aggregating k (env\<lparr>e_languages_count := languages_count descendants\<rparr>)) now s
          = (Inr (), s2) \<and>
          the_data s2 ''languages'' = Some (VInt (int (card (\<Union>d\<in>set descendants. set d))))"
proof
  fix k assume k: "k \<in> {ProjectStats, GlobalStats}"
  let ?env = "env\<lparr>e_languages_count := languages_count descendants\<rparr>"
  from calculate_basic_agg_keys[of k ?env now s]
  obtain s2 where s2: "calculate_basic (Aggregating k ?env) now s = (Inr (), s2)"
    "the_data s2 ''languages'' =
        (if k \<in> {ProjectLanguageStats, CategoryLanguageStats} then Some (VInt 1)
         else if k \<in> {ProjectStats, GlobalStats} then Some (VInt (e_languages_count ?env))
         else Some (VInt (sum_list (map (\<lambda>so. so_num so ''languages'')
                                     (e_object_set ?env @ category_set k ?env)))))"
    by (elim exE conjE) (rule that, assumption+)
  have "languages_count descendants = int (card (\<Union>d\<in>set descendants. set d))"
    by (simp add: languages_count_def languages_def length_remdups_card_conv)
  then have "the_data s2 ''languages'' = Some (VInt (int (card (\<Union>d\<in>set descendants. set d))))"
    using s2(2) k by auto
  then show "\<exists>s2. calculate_basic (Aggregating k ?env) now s = (Inr (), s2) \<and>
          the_data s2 ''languages'' = Some (VInt (int (card (\<Union>d\<in>set descendants. set d))))"
    using s2(1) by (intro exI[of _ s2] conjI) assumption+
qed

theorem C6_languages_distinct_count_witness:
  "ProjectStats \<in> {ProjectStats, GlobalStats} \<and>
   sum_list (map (\<lambda>c. so_num c ''languages'') (e_object_set example_env)) = 7 \<and>
   the_data (snd (calculate_basic
      (Aggregating ProjectStats (example_env\<lparr>e_languages_count := languages_count [[5, 7], [7]]\<rparr>))
      5 fresh)) ''languages'' = Some (VInt 2)"
proof -
  have m: "ProjectStats \<in> {ProjectStats, GlobalStats}" by simp
  from bspec[OF C6_languages_distinct_count[where env = example_env and descendants = "[[5, 7], [7]]"
      and now = 5 and s = fresh] m]
  obtain s2 where s2: "calculate_basic
      (Aggregating ProjectStats (example_env\<lparr>e_languages_count := languages_count [[5, 7], [7]]\<rparr>))
      5 fresh = (Inr (), s2)"
    "the_data s2 ''languages'' = Some (VInt (int (card (\<Union>d\<in>set [[5, 7], [7::nat]]. set d))))"
    by (elim exE conjE) (rule that, assumption+)
  have "(\<Union>d\<in>set [[5, 7], [7::nat]]. set d) = {5, 7}" by auto
  then have "card (\<Union>d\<in>set [[5, 7], [7::nat]]. set d) = 2" by simp
  then have "the_data s2 ''languages'' = Some (VInt 2)" using s2(2) by simp
  moreover have "sum_list (map (\<lambda>c. so_num c ''languages'') (e_object_set example_env)) = 7"
    by (simp add: example_env_def child_a_def child_b_def)
  ultimately show ?thesis using m by (simp add: s2(1))
qed

section \<open>The leaf computation\<close>

lemma unit_aggregate_keys:
  "map fst (unit_aggregate c rows) =
     concat (map (\<lambda>n. [n, n @ ''_words'', n @ ''_chars''])
       [''all'', ''fuzzy'', ''readonly'', ''translated'', ''todo'', ''nottranslated'',
        ''approved'', ''unapproved'', ''unlabeled'', ''allchecks'', ''translated_checks'',
        ''dismissed_checks'', ''suggestions'', ''nosuggestions'', ''approved_suggestions'',
        ''comments''])"
  by (simp add: unit_aggregate_def partition_stats_def)

lemma distinct_unit_aggregate: "distinct (map fst (unit_aggregate c rows))"
  unfolding unit_aggregate_keys by simp

lemma unit_aggregate_nonempty: "unit_aggregate c rows \<noteq> []"
  by (simp add: unit_aggregate_def)

lemma store_items_unit_aggregate:
  "store_items ld (unit_aggregate c rows) s =
     s\<lparr>s_data := Some (\<lambda>k. case map_of (unit_aggregate c rows) k of
                               None \<Rightarrow> ldata ld s k | Some v \<Rightarrow> Some (conv k v))\<rparr>"
  using store_items_eq[OF unit_aggregate_nonempty, of ld c rows s]
  by (simp add: map_of_rev_distinct[OF distinct_unit_aggregate])

lemma translation_calculate_basic_eq:
  "translation_calculate_basic env s = Inr (s\<lparr>s_data := Some (\<lambda>key.
     if key = ''total_changes'' then
       Some (case t_last_change env of
               None \<Rightarrow> VInt 0 | Some (t, a) \<Rightarrow> Count_rows (t_change_set env))
     else if key = ''monthly_changes'' then
       Some (case t_last_change env of
               None \<Rightarrow> VInt 0
             | Some (t, a) \<Rightarrow>
                 conv key (conditional_sum (\<lambda>x. 1) (\<lambda>x. x > t_now env - days30) (t_change_set env)))
     else if key = ''recent_changes'' then
       Some (case t_last_change env of
               None \<Rightarrow> VInt 0
             | Some (t, a) \<Rightarrow>
                 conv key (conditional_sum (\<lambda>x. 1) (\<lambda>x. x > t - hours6) (t_change_set env)))
     else if key = ''last_author'' then
       Some (case t_last_change env of None \<Rightarrow> VNone | Some (t, a) \<Rightarrow> int_val a)
     else if key = ''last_changed'' then
       Some (case t_last_change env of None \<Rightarrow> VNone | Some (t, a) \<Rightarrow> VDate t)
     else if key = ''languages'' then Some (VInt 1)
     else (case map_of (unit_aggregate (t_states env) (t_unit_set env)) key of
             None \<Rightarrow> ldata load s key | Some v \<Rightarrow> Some (conv key v)))\<rparr>)"
proof (cases "t_last_change env")
  case None
  show ?thesis
    unfolding translation_calculate_basic_def Let_def store_items_unit_aggregate
    by (auto simp: None fetch_last_change_def count_changes_def store_eq fun_eq_iff Count_rows_def Let_def
          intro!: arg_cong[where f="\<lambda>x. s\<lparr>s_data := Some x\<rparr>"])
next
  case (Some p)
  obtain t a where p: "p = (t, a)" by (cases p)
  show ?thesis
    unfolding translation_calculate_basic_def Let_def store_items_unit_aggregate
    by (auto simp: Some p fetch_last_change_def count_changes_def store_eq fun_eq_iff Count_rows_def Let_def
          intro!: arg_cong[where f="\<lambda>x. s\<lparr>s_data := Some x\<rparr>"])
qed

lemma calculate_basic_translation:
  "calculate_basic (Translation env) now s =
     (Inr (), s\<lparr>s_data := Some (\<lambda>key.
        if key = ''stats_timestamp'' then Some (VFloat now)
        else if key = ''total_changes'' then
          Some (case t_last_change env of
                  None \<Rightarrow> VInt 0 | Some (t, a) \<Rightarrow> Count_rows (t_change_set env))
        else if key = ''monthly_changes'' then
          Some (case t_last_change env of
                  None \<Rightarrow> VInt 0
                | Some (t, a) \<Rightarrow>
                    conv key (conditional_sum (\<lambda>x. 1) (\<lambda>x. x > t_now env - days30) (t_change_set env)))
        else if key = ''recent_changes'' then
          Some (case t_last_change env of
                  None \<Rightarrow> VInt 0
                | Some (t, a) \<Rightarrow>
                    conv key (conditional_sum (\<lambda>x. 1) (\<lambda>x. x > t - hours6) (t_change_set env)))
        else if key = ''last_author'' then
          Some (case t_last_change env of None \<Rightarrow> VNone | Some (t, a) \<Rightarrow> int_val a)
        else if key = ''last_changed'' then
          Some (case t_last_change env of None \<Rightarrow> VNone | Some (t, a) \<Rightarrow> VDate t)
        else if key = ''languages'' then Some (VInt 1)
        else (case map_of (unit_aggregate (t_states env) (t_unit_set env)) key of
                None \<Rightarrow> ldata load s key | Some v \<Rightarrow> Some (conv key v)))\<rparr>)"
  unfolding calculate_basic_def calculate_basic_impl.simps translation_calculate_basic_eq
  by (auto simp: store_eq fun_eq_iff intro!: arg_cong[where f="\<lambda>x. s\<lparr>s_data := Some x\<rparr>"])

lemma sum_list_indicator:
  "sum_list (map (\<lambda>r. if cond r then 1 else 0) rows) = int (length (filter cond rows))"
  by (induction rows) auto

lemma conv_conditional_count:
  "\<not> startswith key ''last_'' \<Longrightarrow>
   conv key (conditional_sum (\<lambda>u. 1) cond rows) = VInt (int (length (filter cond rows)))"
  by (simp add: conv_def conditional_sum_def Sum_rows_def sum_list_indicator)



lemma calculate_basic_translation_ok:
  "calculate_basic (Translation env) now s = (Inr (), snd (calculate_basic (Translation env) now s))"
  by (simp add: calculate_basic_translation)



subsection \<open>The leaf without units\<close>

lemma unit_aggregate_partitions:
  "map fst (unit_aggregate c rows) =
     concat (map (\<lambda>n. [n, n @ ''_words'', n @ ''_chars'']) leaf_partitions)"
  by (simp add: unit_aggregate_def partition_stats_def leaf_partitions_def)

lemma set_leaf_partitions: "set leaf_partitions = set BASICS"
  by (simp add: leaf_partitions_def BASICS_def insert_commute)

lemma partition_stats_empty_values:
  "(k, v) \<in> set (partition_stats n cond []) \<Longrightarrow> v = VNone"
  by (auto simp: partition_stats_def conditional_sum_def Sum_rows_def)

lemma unit_aggregate_empty_values:
  "(k, v) \<in> set (unit_aggregate c []) \<Longrightarrow> v = VNone \<or> v = VInt 0"
  unfolding unit_aggregate_def set_append
  by (auto simp: Sum_rows_def Count_rows_def dest: partition_stats_empty_values)

lemma startswith_last:
  "startswith ''last_changed'' ''last_''" "startswith ''last_author'' ''last_''"
  by (simp_all add: startswith_def)

lemma basic_key_in_unit_aggregate:
  assumes "key \<in> set BASIC_KEYS" "\<not> startswith key ''last_''"
    "key \<notin> {''languages'', ''recent_changes'', ''monthly_changes'', ''total_changes''}"
  shows "key \<in> set (map fst (unit_aggregate c rows))"
proof -
  have 1: "key \<in> (\<lambda>x. x @ ''_words'') ` set BASICS \<or>
      key \<in> (\<lambda>x. x @ ''_chars'') ` set BASICS \<or> key \<in> set BASICS \<or>
      key \<in> {''languages'', ''last_changed'', ''last_author'', ''recent_changes'',
               ''monthly_changes'', ''total_changes''}"
    using assms(1) unfolding BASIC_KEYS_def by (simp only: set_append set_map Un_iff list.set)
  have 2: "key \<notin> {''languages'', ''last_changed'', ''last_author'', ''recent_changes'',
               ''monthly_changes'', ''total_changes''}"
    using assms(2,3) startswith_last by auto
  from 1 2 obtain n where n: "n \<in> set leaf_partitions"
      "key = n \<or> key = n @ ''_words'' \<or> key = n @ ''_chars''"
    unfolding set_leaf_partitions by auto
  have "key \<in> set [n, n @ ''_words'', n @ ''_chars'']" using n(2) by auto
  then have "key \<in> set (concat (map (\<lambda>n. [n, n @ ''_words'', n @ ''_chars'']) leaf_partitions))"
    unfolding set_concat set_map using n(1) by blast
  then show ?thesis by (simp only: unit_aggregate_partitions)
qed

lemma empty_leaf_zero:
  assumes "key \<in> set BASIC_KEYS" "\<not> startswith key ''last_''"
    "key \<notin> {''languages'', ''recent_changes'', ''monthly_changes'', ''total_changes''}"
    "t_unit_set env = []"
  shows "the_data (snd (calculate_basic (Translation env) now s)) key = Some (VInt 0)"
proof -
  from basic_key_in_unit_aggregate[OF assms(1-3), of "t_states env" "[]"]
  obtain v where v: "(key, v) \<in> set (unit_aggregate (t_states env) [])" by auto
  then have m: "map_of (unit_aggregate (t_states env) []) key = Some v"
    using distinct_unit_aggregate by simp
  have "conv key v = VInt 0"
    using unit_aggregate_empty_values[OF v] assms(2) by (auto simp: conv_def)
  moreover have "key \<noteq> ''stats_timestamp''" "key \<noteq> ''last_author''" "key \<noteq> ''last_changed''"
    using assms(1,2) ts_notin BASIC_sub startswith_last by auto
  ultimately show ?thesis
    using assms(3,4) m by (simp add: calculate_basic_translation)
qed

lemma leaf_change_counts_int:
  "\<exists>n. the_data (snd (calculate_basic (Translation env) now s)) ''recent_changes'' = Some (VInt n)"
  "\<exists>n. the_data (snd (calculate_basic (Translation env) now s)) ''monthly_changes'' = Some (VInt n)"
  "\<exists>n. the_data (snd (calculate_basic (Translation env) now s)) ''total_changes'' = Some (VInt n)"
  by (auto simp: calculate_basic_translation conv_conditional_count startswith_def Count_rows_def
           split: option.splits)

lemma leaf_languages:
  "the_data (snd (calculate_basic (Translation env) now s)) ''languages'' = Some (VInt 1)"
  by (simp add: calculate_basic_translation)

lemma leaf_no_change:
  "t_last_change env = None \<Longrightarrow>
   the_data (snd (calculate_basic (Translation env) now s)) ''recent_changes'' = Some (VInt 0) \<and>
   the_data (snd (calculate_basic (Translation env) now s)) ''monthly_changes'' = Some (VInt 0) \<and>
   the_data (snd (calculate_basic (Translation env) now s)) ''total_changes'' = Some (VInt 0) \<and>
   the_data (snd (calculate_basic (Translation env) now s)) ''last_changed'' = Some VNone \<and>
   the_data (snd (calculate_basic (Translation env) now s)) ''last_author'' = Some VNone"
  by (simp add: calculate_basic_translation)

text \<open>
  C10 (amended). \<open>store(key, None)\<close> writes 0 unless the key starts with \<open>last_\<close>, and
  writes any other value unchanged. After a leaf computation over content without units
  every key of \<open>BASIC_KEYS\<close> that does not start with \<open>last_\<close> holds an integer: 0 for the
  partition keys, 1 for \<open>languages\<close>, and 0 for the three change counters when the
  translation has no last change, in which case \<open>last_changed\<close> and \<open>last_author\<close> hold
  \<open>None\<close>.
\<close>

theorem C10_store_and_empty_leaf:
  "(\<forall>key v st. the_data (store ld key v st) key =
       Some (if v = VNone \<and> \<not> startswith key ''last_'' then VInt 0 else v)) \<and>
   (t_unit_set env = [] \<longrightarrow>
     (\<exists>s2. calculate_basic (Translation env) now s = (Inr (), s2) \<and>
        (\<forall>key\<in>set BASIC_KEYS. \<not> startswith key ''last_'' \<longrightarrow>
           (\<exists>n. the_data s2 key = Some (VInt n)) \<and>
           (key \<notin> {''languages'', ''recent_changes'', ''monthly_changes'', ''total_changes''}
              \<longrightarrow> the_data s2 key = Some (VInt 0))) \<and>
        the_data s2 ''languages'' = Some (VInt 1) \<and>
        (t_last_change env = None \<longrightarrow>
           the_data s2 ''recent_changes'' = Some (VInt 0) \<and>
           the_data s2 ''monthly_changes'' = Some (VInt 0) \<and>
           the_data s2 ''total_changes'' = Some (VInt 0) \<and>
           the_data s2 ''last_changed'' = Some VNone \<and>
           the_data s2 ''last_author'' = Some VNone)))"
proof (intro conjI allI impI)
  fix key v st
  show "the_data (store ld key v st) key =
       Some (if v = VNone \<and> \<not> startswith key ''last_'' then VInt 0 else v)"
    by (simp add: the_data_store conv_def)
next
  assume e: "t_unit_set env = []"
  let ?s2 = "snd (calculate_basic (Translation env) now s)"
  have a: "(\<exists>n. the_data ?s2 key = Some (VInt n)) \<and>
           (key \<notin> {''languages'', ''recent_changes'', ''monthly_changes'', ''total_changes''}
              \<longrightarrow> the_data ?s2 key = Some (VInt 0))"
    if "key \<in> set BASIC_KEYS" "\<not> startswith key ''last_''" for key
  proof (cases "key \<in> {''languages'', ''recent_changes'', ''monthly_changes'', ''total_changes''}")
    case True
    then show ?thesis
      using leaf_change_counts_int[of env now s] leaf_languages[of env now s] by auto
  next
    case False
    then show ?thesis using empty_leaf_zero[OF that False e] by simp
  qed
  show "\<exists>s2. calculate_basic (Translation env) now s = (Inr (), s2) \<and>
        (\<forall>key\<in>set BASIC_KEYS. \<not> startswith key ''last_'' \<longrightarrow>
           (\<exists>n. the_data s2 key = Some (VInt n)) \<and>
           (key \<notin> {''languages'', ''recent_changes'', ''monthly_changes'', ''total_changes''}
              \<longrightarrow> the_data s2 key = Some (VInt 0))) \<and>
        the_data s2 ''languages'' = Some (VInt 1) \<and>
        (t_last_change env = None \<longrightarrow>
           the_data s2 ''recent_changes'' = Some (VInt 0) \<and>
           the_data s2 ''monthly_changes'' = Some (VInt 0) \<and>
           the_data s2 ''total_changes'' = Some (VInt 0) \<and>
           the_data s2 ''last_changed'' = Some VNone \<and>
           the_data s2 ''last_author'' = Some VNone)"
    using a leaf_no_change[of env now s] leaf_languages[of env now s]
    by (intro exI[of _ ?s2] conjI calculate_basic_translation_ok ballI impI) auto
qed

theorem C10_store_and_empty_leaf_witness:
  "t_unit_set empty_translation = [] \<and> t_last_change empty_translation = None \<and>
   ''fuzzy_words'' \<in> set BASIC_KEYS \<and> \<not> startswith ''fuzzy_words'' ''last_'' \<and>
   the_data (store load ''fuzzy_words'' VNone fresh) ''fuzzy_words'' = Some (VInt 0) \<and>
   the_data (store load ''last_author'' VNone fresh) ''last_author'' = Some VNone \<and>
   the_data (snd (calculate_basic (Translation empty_translation) 1 fresh)) ''fuzzy_words''
     = Some (VInt 0) \<and>
   the_data (snd (calculate_basic (Translation empty_translation) 1 fresh)) ''last_changed''
     = Some VNone"
proof -
  note t = C10_store_and_empty_leaf[of load empty_translation 1 fresh]
  have e: "t_unit_set empty_translation = []" "t_last_change empty_translation = None"
    by (simp_all add: empty_translation_def example_translation_def)
  have k: "''fuzzy_words'' \<in> set BASIC_KEYS" "\<not> startswith ''fuzzy_words'' ''last_''"
    by (simp_all add: BASIC_KEYS_def BASICS_def startswith_def)
  have st: "the_data (store load ''fuzzy_words'' VNone fresh) ''fuzzy_words'' = Some (VInt 0)"
    "the_data (store load ''last_author'' VNone fresh) ''last_author'' = Some VNone"
    using t[THEN conjunct1] by (simp_all add: startswith_def)
  from t[THEN conjunct2, rule_format, OF e(1)]
  obtain s2 where s2: "calculate_basic (Translation empty_translation) 1 fresh = (Inr (), s2)"
    "\<forall>key\<in>set BASIC_KEYS. \<not> startswith key ''last_'' \<longrightarrow>
           (\<exists>n. the_data s2 key = Some (VInt n)) \<and>
           (key \<notin> {''languages'', ''recent_changes'', ''monthly_changes'', ''total_changes''}
              \<longrightarrow> the_data s2 key = Some (VInt 0))"
    "t_last_change empty_translation = None \<longrightarrow>
           the_data s2 ''recent_changes'' = Some (VInt 0) \<and>
           the_data s2 ''monthly_changes'' = Some (VInt 0) \<and>
           the_data s2 ''total_changes'' = Some (VInt 0) \<and>
           the_data s2 ''last_changed'' = Some VNone \<and>
           the_data s2 ''last_author'' = Some VNone"
    by (elim exE conjE) (rule that, assumption+)
  have 1: "the_data s2 ''fuzzy_words'' = Some (VInt 0)"
    using bspec[OF s2(2) k(1)] k(2) by simp
  have 2: "the_data s2 ''last_changed'' = Some VNone"
    using s2(3) e(2) by simp
  show ?thesis using e k st 1 2 by (simp add: s2(1))
qed

theorem C10_languages_counterexample:
  "t_unit_set empty_translation = [] \<and>
   ''languages'' \<in> set BASIC_KEYS \<and> \<not> startswith ''languages'' ''last_'' \<and>
   the_data (snd (calculate_basic (Translation empty_translation) 1 fresh)) ''languages''
     \<noteq> Some (VInt 0)"
  by (simp add: leaf_languages empty_translation_def example_translation_def BASIC_KEYS_def
        startswith_def)

section \<open>Reading an attribute\<close>

declare getattr.simps [simp del] calculate_percent.simps [simp del]

lemma calculate_basic_ok: "fst (calculate_basic node now s) = Inr ()"
proof (cases node)
  case (Translation env)
  then show ?thesis by (simp add: calculate_basic_translation)
next
  case (Aggregating k env)
  from calculate_basic_agg[of k env now s] obtain s2 where
    "calculate_basic (Aggregating k env) now s = (Inr (), s2)"
    by (elim exE conjE) (rule that, assumption)
  then show ?thesis using Aggregating by simp
next
  case DummyTranslation
  then show ?thesis by (simp add: calculate_basic_def)
next
  case (Ghost base)
  then show ?thesis by (simp add: calculate_basic_def)
qed

lemma calculate_basic_pair:
  "calculate_basic node now s = (Inr (), snd (calculate_basic node now s))"
  using calculate_basic_ok[of node now s] by (cases "calculate_basic node now s") simp




lemma getattr_stats_timestamp:
  "getattr node now ''stats_timestamp'' s =
     (Inr (case the_data (loaded (node_load node) s) ''stats_timestamp'' of
             None \<Rightarrow> VInt 0 | Some v \<Rightarrow> v),
      loaded (node_load node) s)"
  by (simp add: getattr.simps startswith_def endswith_def Let_def)




subsection \<open>What the calculators populate and persist\<close>

lemma the_data_pending [simp]: "the_data (s\<lparr>s_pending_save := b\<rparr>) = the_data s"
  by (simp add: the_data_def)

lemma save_sets:
  "s_sets (save node up s) = (if persists node then s_sets s @ [the_data s] else s_sets s)"
  by (cases node) (simp_all add: persists_def translation_save_def base_save_def Let_def)

lemma save_data [simp]: "the_data (save node up s) = the_data s"
  by (cases node) (simp_all add: translation_save_def base_save_def Let_def the_data_def)

lemma save_pending [simp]: "s_pending_save (save node up s) = s_pending_save s"
  by (cases node) (simp_all add: translation_save_def base_save_def Let_def)

lemma loaded_sets [simp]: "s_sets (loaded ld s) = s_sets s"
  by (simp add: loaded_def split: option.splits)

lemma loaded_pending [simp]: "s_pending_save (loaded ld s) = s_pending_save s"
  by (simp add: loaded_def split: option.splits)





lemma calculate_basic_frame:
  assumes "persists node"
  shows "s_sets (snd (calculate_basic node now s)) = s_sets s"
    and "s_pending_save (snd (calculate_basic node now s)) = s_pending_save s"
    and "s_on_commit (snd (calculate_basic node now s)) = s_on_commit s"
    and "s_cache (snd (calculate_basic node now s)) = s_cache s"
proof -
  have "s_sets (snd (calculate_basic node now s)) = s_sets s \<and>
        s_pending_save (snd (calculate_basic node now s)) = s_pending_save s \<and>
        s_on_commit (snd (calculate_basic node now s)) = s_on_commit s \<and>
        s_cache (snd (calculate_basic node now s)) = s_cache s"
  proof (cases node)
    case (Translation env)
    then show ?thesis by (simp add: calculate_basic_translation)
  next
    case (Aggregating k env)
    from calculate_basic_agg[of k env now s]
    obtain m where "calculate_basic (Aggregating k env) now s = (Inr (), s\<lparr>s_data := Some m\<rparr>)"
      by (elim exE conjE) (rule that, assumption)
    then show ?thesis using Aggregating by simp
  next
    case DummyTranslation
    then show ?thesis using assms by (simp add: persists_def)
  next
    case (Ghost base)
    then show ?thesis using assms by (simp add: persists_def)
  qed
  then show "s_sets (snd (calculate_basic node now s)) = s_sets s"
    and "s_pending_save (snd (calculate_basic node now s)) = s_pending_save s"
    and "s_on_commit (snd (calculate_basic node now s)) = s_on_commit s"
    and "s_cache (snd (calculate_basic node now s)) = s_cache s"
    by simp_all
qed



lemma fresh_loaded [simp]:
  "loaded load fresh = fresh\<lparr>s_data := Some Map.empty\<rparr>"
  by (simp add: loaded_def load_def fresh_def)



subsection \<open>The cache writes of one read\<close>

lemma store_sets [simp]: "s_sets (store ld key v s) = s_sets s"
  by (simp add: store_eq)

lemma store_zero_sets [simp]: "s_sets (store_zero keys s) = s_sets s"
  by (induction keys arbitrary: s) simp_all








lemma fresh_pending_loaded [simp]:
  "loaded load (fresh\<lparr>s_pending_save := True\<rparr>) =
     fresh\<lparr>s_pending_save := True, s_data := Some Map.empty\<rparr>"
  by (simp add: loaded_def load_def fresh_def)



subsection \<open>Percentages\<close>





section \<open>Recomputing twice\<close>

lemma calculate_basic_agg_all:
  "\<exists>st. wf_stats st \<and>
     (\<forall>s now. calculate_basic (Aggregating k env) now s =
       (Inr (), s\<lparr>s_data := Some (\<lambda>key.
          if key = ''stats_timestamp'' then Some (VFloat now)
          else if key = ''languages'' \<and> k \<in> {ProjectLanguageStats, CategoryLanguageStats}
          then Some (VInt 1)
          else if key = ''languages'' \<and> k \<in> {ProjectStats, GlobalStats}
          then Some (VInt (e_languages_count env))
          else if k = ComponentStats \<and>
                  key \<in> {''source_chars'', ''source_words'', ''source_strings''}
          then Some (VInt (case e_source_translation env of
                             None \<Rightarrow> 0 | Some so \<Rightarrow> so_num so (source_of key)))
          else (case map_of st key of
                  None \<Rightarrow> ldata load s key | Some v \<Rightarrow> Some (conv key v)))\<rparr>))"
proof -
  from object_loop_effect[OF wf_zero_stats, of k "e_object_set env"]
  obtain s1 where s1: "object_loop k (e_object_set env) (zero_stats SOURCE_KEYS) = Inr s1"
     "wf_stats s1"
    by (elim exE conjE) (rule that, assumption+)
  from category_loop_effect[OF s1(2), of "category_set k env"]
  obtain s2 where s2: "category_loop (category_set k env) s1 = Inr s2" "wf_stats s2"
    by (elim exE conjE) (rule that, assumption+)
  have a: "aggregating_calculate_basic k env s =
          Inr (prefetch_source k env (s\<lparr>s_data := Some (\<lambda>key. case map_of s2 key of
                                    None \<Rightarrow> ldata load s key | Some v \<Rightarrow> Some (conv key v))\<rparr>))" for s
    by (simp add: aggregating_calculate_basic_def s1(1) s2(1) store_items_wf[OF s2(2)])
  have b: "agg_calculate_basic k env s = Inr (s\<lparr>s_data := Some (\<lambda>key.
          if key = ''languages'' \<and> k \<in> {ProjectLanguageStats, CategoryLanguageStats}
          then Some (VInt 1)
          else if key = ''languages'' \<and> k \<in> {ProjectStats, GlobalStats}
          then Some (VInt (e_languages_count env))
          else if k = ComponentStats \<and>
                  key \<in> {''source_chars'', ''source_words'', ''source_strings''}
          then Some (VInt (case e_source_translation env of
                             None \<Rightarrow> 0 | Some so \<Rightarrow> so_num so (source_of key)))
          else (case map_of s2 key of
                  None \<Rightarrow> ldata load s key | Some v \<Rightarrow> Some (conv key v)))\<rparr>)" for s
    unfolding agg_calculate_basic.simps a prefetch_source_data
    by (cases k)
       (auto simp: store_eq fun_eq_iff intro!: arg_cong[where f="\<lambda>x. s\<lparr>s_data := Some x\<rparr>"])
  have c: "calculate_basic (Aggregating k env) now s =
       (Inr (), s\<lparr>s_data := Some (\<lambda>key.
          if key = ''stats_timestamp'' then Some (VFloat now)
          else if key = ''languages'' \<and> k \<in> {ProjectLanguageStats, CategoryLanguageStats}
          then Some (VInt 1)
          else if key = ''languages'' \<and> k \<in> {ProjectStats, GlobalStats}
          then Some (VInt (e_languages_count env))
          else if k = ComponentStats \<and>
                  key \<in> {''source_chars'', ''source_words'', ''source_strings''}
          then Some (VInt (case e_source_translation env of
                             None \<Rightarrow> 0 | Some so \<Rightarrow> so_num so (source_of key)))
          else (case map_of s2 key of
                  None \<Rightarrow> ldata load s key | Some v \<Rightarrow> Some (conv key v)))\<rparr>)" for s now
    unfolding calculate_basic_def calculate_basic_impl.simps b
    by (auto simp: store_eq fun_eq_iff intro!: arg_cong[where f="\<lambda>x. s\<lparr>s_data := Some x\<rparr>"])
  show ?thesis
    using s2(2) c by (intro exI[of _ s2] conjI allI) assumption+
qed

lemma clear_ldata [simp]: "ldata ld (clear s) = Map.empty"
  by (simp add: clear_def ldata_def)

lemma clear_fields [simp]:
  "s_sets (clear s) = s_sets s" "s_pending_save (clear s) = s_pending_save s"
  by (simp_all add: clear_def)

lemma recomputed_record:
  assumes "persists node"
  shows "\<exists>R. \<forall>s now. the_data (snd (calculate_basic node now (clear s))) =
                        R(''stats_timestamp'' \<mapsto> VFloat now)"
proof (cases node)
  case (Translation env)
  let ?R = "\<lambda>key.
        if key = ''total_changes'' then
          Some (case t_last_change env of
                  None \<Rightarrow> VInt 0 | Some (t, a) \<Rightarrow> Count_rows (t_change_set env))
        else if key = ''monthly_changes'' then
          Some (case t_last_change env of
                  None \<Rightarrow> VInt 0
                | Some (t, a) \<Rightarrow>
                    conv key (conditional_sum (\<lambda>x. 1) (\<lambda>x. x > t_now env - days30) (t_change_set env)))
        else if key = ''recent_changes'' then
          Some (case t_last_change env of
                  None \<Rightarrow> VInt 0
                | Some (t, a) \<Rightarrow>
                    conv key (conditional_sum (\<lambda>x. 1) (\<lambda>x. x > t - hours6) (t_change_set env)))
        else if key = ''last_author'' then
          Some (case t_last_change env of None \<Rightarrow> VNone | Some (t, a) \<Rightarrow> int_val a)
        else if key = ''last_changed'' then
          Some (case t_last_change env of None \<Rightarrow> VNone | Some (t, a) \<Rightarrow> VDate t)
        else if key = ''languages'' then Some (VInt 1)
        else (case map_of (unit_aggregate (t_states env) (t_unit_set env)) key of
                None \<Rightarrow> None | Some v \<Rightarrow> Some (conv key v))"
  have "the_data (snd (calculate_basic node now (clear s))) = ?R(''stats_timestamp'' \<mapsto> VFloat now)"
    for s now
    unfolding Translation calculate_basic_translation
    by (rule ext) (simp split: option.splits)
  then show ?thesis by blast
next
  case (Aggregating k env)
  from calculate_basic_agg_all[of k env]
  obtain st where st: "\<forall>s now. calculate_basic (Aggregating k env) now s =
       (Inr (), s\<lparr>s_data := Some (\<lambda>key.
          if key = ''stats_timestamp'' then Some (VFloat now)
          else if key = ''languages'' \<and> k \<in> {ProjectLanguageStats, CategoryLanguageStats}
          then Some (VInt 1)
          else if key = ''languages'' \<and> k \<in> {ProjectStats, GlobalStats}
          then Some (VInt (e_languages_count env))
          else if k = ComponentStats \<and>
                  key \<in> {''source_chars'', ''source_words'', ''source_strings''}
          then Some (VInt (case e_source_translation env of
                             None \<Rightarrow> 0 | Some so \<Rightarrow> so_num so (source_of key)))
          else (case map_of st key of
                  None \<Rightarrow> ldata load s key | Some v \<Rightarrow> Some (conv key v)))\<rparr>)"
    by (elim exE conjE) (rule that, assumption)
  let ?R = "\<lambda>key.
          if key = ''languages'' \<and> k \<in> {ProjectLanguageStats, CategoryLanguageStats}
          then Some (VInt 1)
          else if key = ''languages'' \<and> k \<in> {ProjectStats, GlobalStats}
          then Some (VInt (e_languages_count env))
          else if k = ComponentStats \<and>
                  key \<in> {''source_chars'', ''source_words'', ''source_strings''}
          then Some (VInt (case e_source_translation env of
                             None \<Rightarrow> 0 | Some so \<Rightarrow> so_num so (source_of key)))
          else (case map_of st key of
                  None \<Rightarrow> None | Some v \<Rightarrow> Some (conv key v))"
  have "the_data (snd (calculate_basic node now (clear s))) = ?R(''stats_timestamp'' \<mapsto> VFloat now)"
    for s now
    unfolding Aggregating st[rule_format]
    by (rule ext) (simp cong: option.case_cong if_cong)
  then show ?thesis by blast
next
  case DummyTranslation
  then show ?thesis using assms by (simp add: persists_def)
next
  case (Ghost base)
  then show ?thesis using assms by (simp add: persists_def)
qed

lemma update_stats_eq:
  "update_stats node False up now s =
     (Inr (), save node up (snd (calculate_basic node now (clear s))))"
  unfolding update_stats_def Let_def
  by (subst calculate_basic_pair) simp

lemma update_stats_lazy_eq:
  "update_stats node True up now s = (Inr (), save node up (clear s))"
  by (simp add: update_stats_def)

lemma update_stats_persisted:
  assumes "persists node"
  shows "\<exists>R. \<forall>s up now.
           update_stats node False up now s =
             (Inr (), snd (update_stats node False up now s)) \<and>
           s_sets (snd (update_stats node False up now s)) =
             s_sets s @ [R(''stats_timestamp'' \<mapsto> VFloat now)]"
proof -
  from recomputed_record[OF assms]
  obtain R where R: "\<forall>s now. the_data (snd (calculate_basic node now (clear s))) =
                        R(''stats_timestamp'' \<mapsto> VFloat now)"
    by (elim exE) (rule that)
  have "s_sets (snd (update_stats node False up now s)) =
             s_sets s @ [R(''stats_timestamp'' \<mapsto> VFloat now)]" for s up now
    using assms R
    by (simp add: update_stats_eq save_sets calculate_basic_frame(1)[OF assms])
  moreover have "update_stats node False up now s =
             (Inr (), snd (update_stats node False up now s))" for s up now
    by (simp add: update_stats_eq)
  ultimately show ?thesis by (intro exI[of _ R] allI conjI)
qed

lemma update_stats_twice_sets:
  assumes "persists node"
  shows "\<exists>R. \<forall>s up1 up2 now1 now2.
        fst (update_stats node False up1 now1 s) = Inr () \<and>
        fst (update_stats node False up2 now2 (snd (update_stats node False up1 now1 s))) = Inr () \<and>
        s_sets (snd (update_stats node False up2 now2 (snd (update_stats node False up1 now1 s)))) =
          s_sets s @ [R(''stats_timestamp'' \<mapsto> VFloat now1),
                      R(''stats_timestamp'' \<mapsto> VFloat now2)]"
proof -
  from update_stats_persisted[OF assms]
  obtain R where R: "\<forall>s up now.
           update_stats node False up now s =
             (Inr (), snd (update_stats node False up now s)) \<and>
           s_sets (snd (update_stats node False up now s)) =
             s_sets s @ [R(''stats_timestamp'' \<mapsto> VFloat now)]"
    by (elim exE) (rule that)
  have ok: "fst (update_stats node False up now s) = Inr ()" for up now s
    by (simp add: update_stats_eq)
  have two: "s_sets (snd (update_stats node False up2 now2 (snd (update_stats node False up1 now1 s)))) =
          s_sets s @ [R(''stats_timestamp'' \<mapsto> VFloat now1),
                      R(''stats_timestamp'' \<mapsto> VFloat now2)]" for s up1 up2 now1 now2
    using R[rule_format, of up2 now2 "snd (update_stats node False up1 now1 s)", THEN conjunct2]
          R[rule_format, of up1 now1 s, THEN conjunct2]
    by simp
  show ?thesis
    by (intro exI[of _ R] allI conjI ok two)
qed

lemma update_stats_lazy_sets:
  assumes "persists node"
  shows "s_sets (snd (update_stats node True up2 now2 (snd (update_stats node True up1 now1 s)))) =
           s_sets s @ [Map.empty, Map.empty]"
  using assms by (simp add: update_stats_lazy_eq save_sets clear_def)

lemma translation_wall_clock:
  "key \<noteq> ''monthly_changes'' \<Longrightarrow>
   the_data (snd (calculate_basic (Translation (env\<lparr>t_now := w\<rparr>)) now s)) key =
   the_data (snd (calculate_basic (Translation env) now s)) key"
  by (simp add: calculate_basic_translation cong: option.case_cong prod.case_cong
           split: option.splits prod.splits)

text \<open>
  C3 (amended). Two consecutive calls of \<open>update_stats\<close> on unchanged content persist
  two records that agree on every key but \<open>stats_timestamp\<close>, where each holds the
  reading of the monotonic clock of its own call; in lazy mode both calls persist the
  empty record. For a translation the record depends on the wall clock through
  \<open>monthly_changes\<close> only.
\<close>

theorem C3_update_stats_twice:
  "(persists node \<longrightarrow>
     (\<exists>R. \<forall>s up1 up2 now1 now2.
        fst (update_stats node False up1 now1 s) = Inr () \<and>
        fst (update_stats node False up2 now2 (snd (update_stats node False up1 now1 s))) = Inr () \<and>
        s_sets (snd (update_stats node False up2 now2 (snd (update_stats node False up1 now1 s)))) =
          s_sets s @ [R(''stats_timestamp'' \<mapsto> VFloat now1),
                      R(''stats_timestamp'' \<mapsto> VFloat now2)]) \<and>
     (\<forall>s up1 up2 now1 now2.
        s_sets (snd (update_stats node True up2 now2 (snd (update_stats node True up1 now1 s)))) =
          s_sets s @ [Map.empty, Map.empty])) \<and>
   (\<forall>key. key \<noteq> ''monthly_changes'' \<longrightarrow>
      the_data (snd (calculate_basic (Translation (env\<lparr>t_now := w\<rparr>)) now s0)) key =
      the_data (snd (calculate_basic (Translation env) now s0)) key)"
proof (intro conjI impI allI)
  assume p: "persists node"
  show "\<exists>R. \<forall>s up1 up2 now1 now2.
        fst (update_stats node False up1 now1 s) = Inr () \<and>
        fst (update_stats node False up2 now2 (snd (update_stats node False up1 now1 s))) = Inr () \<and>
        s_sets (snd (update_stats node False up2 now2 (snd (update_stats node False up1 now1 s)))) =
          s_sets s @ [R(''stats_timestamp'' \<mapsto> VFloat now1),
                      R(''stats_timestamp'' \<mapsto> VFloat now2)]"
    by (rule update_stats_twice_sets[OF p])
next
  fix s up1 up2 now1 now2
  assume p: "persists node"
  show "s_sets (snd (update_stats node True up2 now2 (snd (update_stats node True up1 now1 s)))) =
          s_sets s @ [Map.empty, Map.empty]"
    by (rule update_stats_lazy_sets[OF p])
next
  fix key
  assume "key \<noteq> ''monthly_changes''"
  then show "the_data (snd (calculate_basic (Translation (env\<lparr>t_now := w\<rparr>)) now s0)) key =
      the_data (snd (calculate_basic (Translation env) now s0)) key"
    by (rule translation_wall_clock)
qed

theorem C3_update_stats_twice_witness:
  "persists (Translation example_translation) \<and>
   length (s_sets (snd (update_stats (Translation example_translation) False True 2
      (snd (update_stats (Translation example_translation) False True 1 fresh))))) = 2 \<and>
   (s_sets (snd (update_stats (Translation example_translation) False True 2
      (snd (update_stats (Translation example_translation) False True 1 fresh)))) ! 0)
     ''stats_timestamp'' = Some (VFloat 1) \<and>
   (s_sets (snd (update_stats (Translation example_translation) False True 2
      (snd (update_stats (Translation example_translation) False True 1 fresh)))) ! 1)
     ''stats_timestamp'' = Some (VFloat 2) \<and>
   (s_sets (snd (update_stats (Translation example_translation) False True 2
      (snd (update_stats (Translation example_translation) False True 1 fresh)))) ! 0) ''all''
   = (s_sets (snd (update_stats (Translation example_translation) False True 2
      (snd (update_stats (Translation example_translation) False True 1 fresh)))) ! 1) ''all''"
proof -
  have p: "persists (Translation example_translation)" by (simp add: persists_def)
  from C3_update_stats_twice[where node = "Translation example_translation",
      THEN conjunct1, THEN mp, OF p, THEN conjunct1]
  obtain R where R: "\<forall>s up1 up2 now1 now2.
        fst (update_stats (Translation example_translation) False up1 now1 s) = Inr () \<and>
        fst (update_stats (Translation example_translation) False up2 now2
               (snd (update_stats (Translation example_translation) False up1 now1 s))) = Inr () \<and>
        s_sets (snd (update_stats (Translation example_translation) False up2 now2
               (snd (update_stats (Translation example_translation) False up1 now1 s)))) =
          s_sets s @ [R(''stats_timestamp'' \<mapsto> VFloat now1),
                      R(''stats_timestamp'' \<mapsto> VFloat now2)]"
    by (elim exE) (rule that)
  have e: "s_sets (snd (update_stats (Translation example_translation) False True 2
      (snd (update_stats (Translation example_translation) False True 1 fresh)))) =
        [R(''stats_timestamp'' \<mapsto> VFloat 1), R(''stats_timestamp'' \<mapsto> VFloat 2)]"
    using R[rule_format, of True 1 fresh True 2, THEN conjunct2, THEN conjunct2]
    by (simp add: fresh_def)
  show ?thesis unfolding e using p by simp
qed

theorem C3_timestamp_counterexample:
  "s_sets (snd (update_stats (Translation example_translation) False True 2
      (snd (update_stats (Translation example_translation) False True 1 fresh)))) ! 0
   \<noteq> s_sets (snd (update_stats (Translation example_translation) False True 2
      (snd (update_stats (Translation example_translation) False True 1 fresh)))) ! 1"
proof -
  have p: "persists (Translation example_translation)" by (simp add: persists_def)
  from update_stats_twice_sets[OF p]
  obtain R where R: "\<forall>s up1 up2 now1 now2.
        fst (update_stats (Translation example_translation) False up1 now1 s) = Inr () \<and>
        fst (update_stats (Translation example_translation) False up2 now2
               (snd (update_stats (Translation example_translation) False up1 now1 s))) = Inr () \<and>
        s_sets (snd (update_stats (Translation example_translation) False up2 now2
               (snd (update_stats (Translation example_translation) False up1 now1 s)))) =
          s_sets s @ [R(''stats_timestamp'' \<mapsto> VFloat now1),
                      R(''stats_timestamp'' \<mapsto> VFloat now2)]"
    by (elim exE) (rule that)
  have e: "s_sets (snd (update_stats (Translation example_translation) False True 2
      (snd (update_stats (Translation example_translation) False True 1 fresh)))) =
        [R(''stats_timestamp'' \<mapsto> VFloat 1), R(''stats_timestamp'' \<mapsto> VFloat 2)]"
    using R[rule_format, of True 1 fresh True 2, THEN conjunct2, THEN conjunct2]
    by (simp add: fresh_def)
  have "(R(''stats_timestamp'' \<mapsto> VFloat 1)) ''stats_timestamp'' \<noteq>
        (R(''stats_timestamp'' \<mapsto> VFloat 2)) ''stats_timestamp''"
    by simp
  then have "R(''stats_timestamp'' \<mapsto> VFloat 1) \<noteq> R(''stats_timestamp'' \<mapsto> VFloat 2)"
    by (rule contrapos_nn) (erule arg_cong)
  then show ?thesis unfolding e by simp
qed

section \<open>Updating the parents of a leaf\<close>

lemma remdups_drop_earlier:
  "x \<in> set zs \<Longrightarrow> remdups (ys @ x # zs) = remdups (ys @ zs)"
  by (induction ys) auto

lemma remdups_append_remdups:
  "remdups (xs @ remdups ys) = remdups (xs @ ys)"
  by (induction xs) auto

lemma add_stats_keys:
  "distinct (map fst d) \<Longrightarrow>
   map fst (add_stats sts d) = rev (remdups (rev (map fst d @ map st_key sts)))"
proof (induction sts arbitrary: d)
  case Nil
  then show ?case by (simp add: add_stats_def distinct_remdups_id)
next
  case (Cons a sts)
  have step: "add_stats (a # sts) d = add_stats sts (AList.update (st_key a) a d)"
    by (simp add: add_stats_def)
  have dist: "distinct (map fst (AList.update (st_key a) a d))"
    using Cons.prems by (simp add: distinct_update)
  show ?case
  proof (cases "st_key a \<in> fst ` set d")
    case True
    then have k: "map fst (AList.update (st_key a) a d) = map fst d"
      by (simp add: update_keys)
    have "remdups (rev (map st_key sts) @ st_key a # rev (map fst d)) =
          remdups (rev (map st_key sts) @ rev (map fst d))"
      using True by (intro remdups_drop_earlier) simp
    then show ?thesis
      unfolding step Cons.IH[OF dist] k by simp
  next
    case False
    then have k: "map fst (AList.update (st_key a) a d) = map fst d @ [st_key a]"
      by (simp add: update_keys)
    show ?thesis
      unfolding step Cons.IH[OF dist] k by simp
  qed
qed

lemma add_stats_distinct:
  "distinct (map fst d) \<Longrightarrow> distinct (map fst (add_stats sts d))"
  by (simp add: add_stats_keys)

lemma add_stats_values:
  "(k, v) \<in> set (add_stats sts d) \<Longrightarrow> (\<forall>(k', v') \<in> set d. st_key v' = k') \<Longrightarrow> st_key v = k"
proof (induction sts arbitrary: d)
  case Nil
  then show ?case by (auto simp: add_stats_def)
next
  case (Cons a sts)
  have step: "add_stats (a # sts) d = add_stats sts (AList.update (st_key a) a d)"
    by (simp add: add_stats_def)
  have "\<forall>(k', v') \<in> set (AList.update (st_key a) a d). st_key v' = k'"
    using Cons.prems(2) by (induction d) (auto split: if_splits)
  then show ?case using Cons.IH Cons.prems(1) unfolding step by blast
qed

lemma dedup_keys:
  "map st_key (map snd (case extra of
                   None \<Rightarrow> add_stats objs []
                 | Some e \<Rightarrow> add_stats e (add_stats objs []))) =
   rev (remdups (rev (map st_key (objs @ (case extra of None \<Rightarrow> [] | Some e \<Rightarrow> e)))))"
proof -
  let ?d = "case extra of None \<Rightarrow> add_stats objs [] | Some e \<Rightarrow> add_stats e (add_stats objs [])"
  have v0: "\<forall>(k', v') \<in> set (add_stats objs []). st_key v' = k'"
    using add_stats_values[of _ _ objs "[]"] by auto
  have v: "\<forall>(k', v') \<in> set ?d. st_key v' = k'"
  proof (cases extra)
    case None
    then show ?thesis using v0 by simp
  next
    case (Some e)
    then show ?thesis using add_stats_values[of _ _ e "add_stats objs []"] v0 by auto
  qed
  then have "map st_key (map snd ?d) = map fst ?d"
    by (induction ?d) auto
  moreover have "map fst ?d =
     rev (remdups (rev (map st_key (objs @ (case extra of None \<Rightarrow> [] | Some e \<Rightarrow> e)))))"
  proof (cases extra)
    case None
    then show ?thesis using add_stats_keys[of "[]" objs] by simp
  next
    case (Some e)
    have 1: "map fst (add_stats objs []) = rev (remdups (rev (map st_key objs)))"
      using add_stats_keys[of "[]" objs] by simp
    have d: "distinct (map fst (add_stats objs []))" by (simp add: add_stats_distinct)
    have "map fst (add_stats e (add_stats objs [])) =
            rev (remdups (rev (map fst (add_stats objs []) @ map st_key e)))"
      by (rule add_stats_keys[OF d])
    also have "\<dots> = rev (remdups (rev (map st_key e) @ remdups (rev (map st_key objs))))"
      by (simp add: 1)
    also have "remdups (rev (map st_key e) @ remdups (rev (map st_key objs))) =
               remdups (rev (map st_key e) @ rev (map st_key objs))"
      by (rule remdups_append_remdups)
    finally show ?thesis using Some by simp
  qed
  ultimately show ?thesis by simp
qed

lemma prefetch_many_keys: "map st_key (prefetch_many cache xs) = map st_key xs"
  by (induction xs) simp_all

lemma prefetch_many_loaded:
  "distinct (map st_key xs) \<Longrightarrow> stat \<in> set (prefetch_many cache xs) \<Longrightarrow> st_data stat \<noteq> None"
proof (induction xs)
  case Nil
  then show ?case by simp
next
  case (Cons i rest)
  have "st_key i \<notin> st_key ` set (filter (\<lambda>j. st_data j = None) rest)"
    using Cons.prems(1) by auto
  then show ?case using Cons by (auto split: if_splits)
qed

lemma prefetch_stats_eq: "prefetch_stats cache xs = prefetch_many cache xs"
  by (simp add: prefetch_stats_def)

lemma stat_objects_keys:
  "map st_key (stat_objects cache objs extra) =
   rev (remdups (rev (map st_key (objs @ (case extra of None \<Rightarrow> [] | Some e \<Rightarrow> e)))))"
  unfolding stat_objects_def prefetch_stats_eq prefetch_many_keys
  by (rule dedup_keys)

lemma stat_objects_distinct: "distinct (map st_key (stat_objects cache objs extra))"
  by (simp add: stat_objects_keys)

lemma stat_objects_loaded:
  assumes "stat \<in> set (stat_objects cache objs extra)"
  shows "st_data stat \<noteq> None"
proof -
  let ?d = "map snd (case extra of None \<Rightarrow> add_stats objs []
                      | Some e \<Rightarrow> add_stats e (add_stats objs []))"
  have "distinct (map st_key ?d)" unfolding dedup_keys by simp
  moreover have "stat \<in> set (prefetch_many cache ?d)"
    using assms unfolding stat_objects_def prefetch_stats_eq .
  ultimately show ?thesis by (rule prefetch_many_loaded)
qed

lemma loaded_timestamp:
  "st_data stat \<noteq> None \<Longrightarrow> stat_stats_timestamp c stat = stat_stats_timestamp c' stat"
  by (auto simp: stat_stats_timestamp_def)

lemma update_loop_result:
  assumes "\<forall>stat\<in>set stats. st_data stat \<noteq> None \<and>
             (\<exists>b. val_le self_ts (stat_stats_timestamp cache0 stat) = Inr b)"
  shows "\<exists>cache'. update_loop self_ts rc stats (cache, upd) =
           Inr (cache', upd @ map st_key (filter (\<lambda>stat. \<not> skipped self_ts cache0 stat) stats))"
  using assms
proof (induction stats arbitrary: cache upd)
  case Nil
  then show ?case by simp
next
  case (Cons stat rest)
  from Cons.prems obtain b where l: "st_data stat \<noteq> None"
     and b: "val_le self_ts (stat_stats_timestamp cache0 stat) = Inr b"
    by auto
  have ts: "stat_stats_timestamp cache stat = stat_stats_timestamp cache0 stat"
    by (rule loaded_timestamp[OF l])
  have rest: "\<forall>stat\<in>set rest. st_data stat \<noteq> None \<and>
             (\<exists>b. val_le self_ts (stat_stats_timestamp cache0 stat) = Inr b)"
    using Cons.prems by simp
  show ?case
  proof (cases "truthy self_ts \<and> b")
    case True
    then have sk: "skipped self_ts cache0 stat" by (simp add: skipped_def b)
    from Cons.IH[OF rest, of cache upd]
    obtain c' where c': "update_loop self_ts rc rest (cache, upd) =
       Inr (c', upd @ map st_key (filter (\<lambda>stat. \<not> skipped self_ts cache0 stat) rest))"
      by (elim exE) (rule that)
    have "update_loop self_ts rc (stat # rest) (cache, upd) =
          update_loop self_ts rc rest (cache, upd)"
      using True by (simp add: ts b)
    then show ?thesis using sk by (intro exI[of _ c']) (simp add: c')
  next
    case False
    then have sk: "\<not> skipped self_ts cache0 stat" by (auto simp: skipped_def b)
    let ?C = "cache(st_key stat \<mapsto> rc (st_key stat) cache)"
    from Cons.IH[OF rest, of ?C "upd @ [st_key stat]"]
    obtain c' where c': "update_loop self_ts rc rest (?C, upd @ [st_key stat]) =
       Inr (c', (upd @ [st_key stat]) @
                map st_key (filter (\<lambda>stat. \<not> skipped self_ts cache0 stat) rest))"
      by (elim exE) (rule that)
    have "update_loop self_ts rc (stat # rest) (cache, upd) =
          update_loop self_ts rc rest (?C, upd @ [st_key stat])"
      using False by (cases "truthy self_ts") (simp_all add: ts b)
    then show ?thesis using sk by (intro exI[of _ c']) (simp add: c')
  qed
qed

lemma update_parents_eq:
  "update_parents node now s objs extra cache rc =
     update_loop (self_timestamp node s) rc (stat_objects cache objs extra) (cache, [])"
  by (simp add: update_parents_def Let_def getattr_stats_timestamp self_timestamp_def
        stat_objects_def)

lemma update_parents_result:
  assumes "\<forall>stat\<in>set (stat_objects cache objs extra).
             \<exists>b. val_le (self_timestamp node s) (stat_stats_timestamp cache stat) = Inr b"
  shows "\<exists>cache'. update_parents node now s objs extra cache recompute =
           Inr (cache', map st_key (filter (\<lambda>stat. \<not> skipped (self_timestamp node s) cache stat)
                                      (stat_objects cache objs extra)))"
proof -
  have "\<forall>stat\<in>set (stat_objects cache objs extra). st_data stat \<noteq> None \<and>
             (\<exists>b. val_le (self_timestamp node s) (stat_stats_timestamp cache stat) = Inr b)"
    using assms stat_objects_loaded by blast
  from update_loop_result[OF this, of recompute cache "[]"]
  show ?thesis by (simp add: update_parents_eq)
qed

lemma skipped_not_updated:
  assumes "stat \<in> set (stat_objects cache objs extra)" "skipped ts cache stat"
  shows "st_key stat \<notin> set (map st_key (filter (\<lambda>stat. \<not> skipped ts cache stat)
                                      (stat_objects cache objs extra)))"
proof
  assume "st_key stat \<in> set (map st_key (filter (\<lambda>stat. \<not> skipped ts cache stat)
                                      (stat_objects cache objs extra)))"
  then obtain stat' where s': "stat' \<in> set (stat_objects cache objs extra)"
      "\<not> skipped ts cache stat'" "st_key stat' = st_key stat"
    by auto
  have "inj_on st_key (set (stat_objects cache objs extra))"
    using stat_objects_distinct[of cache objs extra] by (simp add: distinct_map)
  then have "stat' = stat" using s'(1,3) assms(1) by (auto dest: inj_onD)
  then show False using s'(2) assms(2) by simp
qed

text \<open>
  C8 (amended). \<open>update_parents\<close> of a leaf gathers the stat objects once and
  deduplicates them by key, each key at the place of its first occurrence. When the
  timestamps can be compared the call returns, and the objects it updates are exactly
  those that are not skipped, each once: with a leaf timestamp that is not zero, no
  object whose loaded \<open>stats_timestamp\<close> is at least the leaf's is updated; with a leaf
  timestamp of zero (a record that was never computed) every gathered object is.
\<close>

theorem C8_update_parents:
  "map st_key (stat_objects cache objs extra) =
     rev (remdups (rev (map st_key (objs @ (case extra of None \<Rightarrow> [] | Some e \<Rightarrow> e))))) \<and>
   distinct (map st_key (stat_objects cache objs extra)) \<and>
   ((\<forall>stat\<in>set (stat_objects cache objs extra).
       \<exists>b. val_le (self_timestamp node s) (stat_stats_timestamp cache stat) = Inr b) \<longrightarrow>
     (\<exists>cache' updated.
        update_parents node now s objs extra cache recompute = Inr (cache', updated) \<and>
        updated = map st_key (filter (\<lambda>stat. \<not> skipped (self_timestamp node s) cache stat)
                                (stat_objects cache objs extra)) \<and>
        distinct updated \<and>
        (\<forall>stat\<in>set (stat_objects cache objs extra).
           truthy (self_timestamp node s) \<and>
           val_le (self_timestamp node s) (stat_stats_timestamp cache stat) = Inr True
           \<longrightarrow> st_key stat \<notin> set updated) \<and>
        (\<not> truthy (self_timestamp node s) \<longrightarrow>
           updated = map st_key (stat_objects cache objs extra))))"
proof (intro conjI impI)
  show "map st_key (stat_objects cache objs extra) =
     rev (remdups (rev (map st_key (objs @ (case extra of None \<Rightarrow> [] | Some e \<Rightarrow> e)))))"
    by (rule stat_objects_keys)
next
  show "distinct (map st_key (stat_objects cache objs extra))"
    by (rule stat_objects_distinct)
next
  let ?ts = "self_timestamp node s"
  let ?stats = "stat_objects cache objs extra"
  let ?upd = "map st_key (filter (\<lambda>stat. \<not> skipped ?ts cache stat) ?stats)"
  assume a: "\<forall>stat\<in>set ?stats. \<exists>b. val_le ?ts (stat_stats_timestamp cache stat) = Inr b"
  from update_parents_result[OF a, of now recompute]
  obtain c' where c': "update_parents node now s objs extra cache recompute = Inr (c', ?upd)"
    by (elim exE) (rule that)
  have d: "distinct ?upd"
    using stat_objects_distinct[of cache objs extra] by (rule distinct_map_filter)
  have sk: "\<forall>stat\<in>set ?stats.
           truthy ?ts \<and> val_le ?ts (stat_stats_timestamp cache stat) = Inr True
           \<longrightarrow> st_key stat \<notin> set ?upd"
    using skipped_not_updated[of _ cache objs extra ?ts] by (auto simp: skipped_def)
  have al: "\<not> truthy ?ts \<longrightarrow> ?upd = map st_key ?stats"
    by (simp add: skipped_def)
  show "\<exists>cache' updated.
        update_parents node now s objs extra cache recompute = Inr (cache', updated) \<and>
        updated = ?upd \<and> distinct updated \<and>
        (\<forall>stat\<in>set ?stats.
           truthy ?ts \<and> val_le ?ts (stat_stats_timestamp cache stat) = Inr True
           \<longrightarrow> st_key stat \<notin> set updated) \<and>
        (\<not> truthy ?ts \<longrightarrow> updated = map st_key ?stats)"
    by (intro exI[of _ c'] exI[of _ ?upd] conjI c' refl d sk al)
qed

text \<open>
  What the generators yield for a translation without category and component list. The
  global node comes right after the language and again after each parent.
\<close>

lemma example_update_objects:
  "map st_key (translation_get_update_objects (\<lambda>k. None) example_entity) =
     [KLanguage 1, KGlobal, KComponent 2, KProject 3, KGlobal, KGlobal,
      KProjectLanguage 3 1, KGlobal, KGlobal]"
  by (simp add: translation_get_update_objects_def component_get_update_objects_def
        base_get_update_objects_def stats_of_def example_entity_def Let_def)

lemma example_stat_objects:
  "stat_objects example_cache (translation_get_update_objects (\<lambda>k. None) example_entity) None =
     [\<lparr>st_key = KLanguage 1, st_data = Some Map.empty\<rparr>,
      \<lparr>st_key = KGlobal, st_data = Some [''stats_timestamp'' \<mapsto> VFloat 20]\<rparr>,
      \<lparr>st_key = KComponent 2, st_data = Some Map.empty\<rparr>,
      \<lparr>st_key = KProject 3, st_data = Some Map.empty\<rparr>,
      \<lparr>st_key = KProjectLanguage 3 1, st_data = Some Map.empty\<rparr>]"
  by (simp add: stat_objects_def prefetch_stats_def add_stats_def
        translation_get_update_objects_def component_get_update_objects_def
        base_get_update_objects_def stats_of_def example_entity_def example_cache_def Let_def)

lemma example_self_timestamps:
  "self_timestamp (Translation example_translation) computed_leaf = VFloat 10"
  "self_timestamp (Translation example_translation) fresh = VInt 0"
  by (simp_all add: self_timestamp_def computed_leaf_def loaded_def the_data_def fresh_def
        load_def)

theorem C8_update_parents_witness:
  "map_sum id snd
     (update_parents (Translation example_translation) 1 computed_leaf
        (translation_get_update_objects (\<lambda>k. None) example_entity) None example_cache
        (\<lambda>k c. Map.empty))
   = Inr [KLanguage 1, KComponent 2, KProject 3, KProjectLanguage 3 1]"
proof -
  let ?objs = "translation_get_update_objects (\<lambda>k. None) example_entity"
  have h: "\<forall>stat\<in>set (stat_objects example_cache ?objs None).
       \<exists>b. val_le (self_timestamp (Translation example_translation) computed_leaf)
              (stat_stats_timestamp example_cache stat) = Inr b"
    by (auto simp add: example_stat_objects example_self_timestamps stat_stats_timestamp_def)
  from C8_update_parents[where cache = example_cache and objs = ?objs and extra = None
      and node = "Translation example_translation" and s = computed_leaf and now = 1
      and recompute = "\<lambda>k c. Map.empty", THEN conjunct2, THEN conjunct2, THEN mp, OF h]
  obtain c' updated where r:
    "update_parents (Translation example_translation) 1 computed_leaf ?objs None example_cache
        (\<lambda>k c. Map.empty) = Inr (c', updated)"
    "updated = map st_key (filter (\<lambda>stat. \<not> skipped
         (self_timestamp (Translation example_translation) computed_leaf) example_cache stat)
         (stat_objects example_cache ?objs None))"
    by (elim exE conjE) (rule that)
  have "updated = [KLanguage 1, KComponent 2, KProject 3, KProjectLanguage 3 1]"
    unfolding r(2)
    by (simp add: example_stat_objects example_self_timestamps skipped_def
          stat_stats_timestamp_def)
  then show ?thesis by (simp add: r(1))
qed

theorem C8_zero_timestamp_counterexample:
  "val_le (self_timestamp (Translation example_translation) fresh) (VFloat 20) = Inr True \<and>
   stat_stats_timestamp example_cache
     (stat_objects example_cache
        (translation_get_update_objects (\<lambda>k. None) example_entity) None ! 1) = VFloat 20 \<and>
   st_key (stat_objects example_cache
        (translation_get_update_objects (\<lambda>k. None) example_entity) None ! 1) = KGlobal \<and>
   map_sum id snd
     (update_parents (Translation example_translation) 1 fresh
        (translation_get_update_objects (\<lambda>k. None) example_entity) None example_cache
        (\<lambda>k c. Map.empty))
   = Inr [KLanguage 1, KGlobal, KComponent 2, KProject 3, KProjectLanguage 3 1]"
proof -
  let ?objs = "translation_get_update_objects (\<lambda>k. None) example_entity"
  have h: "\<forall>stat\<in>set (stat_objects example_cache ?objs None).
       \<exists>b. val_le (self_timestamp (Translation example_translation) fresh)
              (stat_stats_timestamp example_cache stat) = Inr b"
    by (auto simp add: example_stat_objects example_self_timestamps stat_stats_timestamp_def)
  from update_parents_result[OF h, of 1 "\<lambda>k c. Map.empty"]
  obtain c' where r:
    "update_parents (Translation example_translation) 1 fresh ?objs None example_cache
        (\<lambda>k c. Map.empty) = Inr (c', map st_key (filter (\<lambda>stat. \<not> skipped
         (self_timestamp (Translation example_translation) fresh) example_cache stat)
         (stat_objects example_cache ?objs None)))"
    by (elim exE) (rule that)
  have u: "map st_key (filter (\<lambda>stat. \<not> skipped
         (self_timestamp (Translation example_translation) fresh) example_cache stat)
         (stat_objects example_cache ?objs None)) =
        [KLanguage 1, KGlobal, KComponent 2, KProject 3, KProjectLanguage 3 1]"
    by (simp add: example_stat_objects example_self_timestamps skipped_def)
  show ?thesis
    unfolding r u
    by (simp add: example_stat_objects example_self_timestamps stat_stats_timestamp_def)
qed

end
